theory Spec2Isabelle
  imports Complex_Main "HOL-Library.AList"
begin

section \<open>Common data\<close>

text \<open>
  Python exceptions that the two programs can raise on their own. An uncaught exception
  ends the function: the model returns \<open>Inl\<close> of it, and the lines printed before it
  are not part of the result.
\<close>

datatype error = IndexError | ZeroDivisionError | ValueError

text \<open>Sequence indexing \<open>xs[i]\<close>: a negative index counts from the end.\<close>

definition index :: "'a list \<Rightarrow> int \<Rightarrow> error + 'a" where
  "index xs i =
     (let j = (if i < 0 then i + int (length xs) else i)
      in if j < 0 \<or> int (length xs) \<le> j then Inl IndexError else Inr (xs ! nat j))"

text \<open>The slice \<open>xs[:k]\<close>; a negative \<open>k\<close> drops \<open>-k\<close> elements from the end.\<close>

definition slice_to :: "'a list \<Rightarrow> int \<Rightarrow> 'a list" where
  "slice_to xs k = (if k < 0 then take (length xs - nat (- k)) xs else take (nat k) xs)"

text \<open>Float division \<open>a / b\<close>, which raises on a zero divisor.\<close>

definition float_div :: "real \<Rightarrow> real \<Rightarrow> error + real" where
  "float_div a b = (if b = 0 then Inl ZeroDivisionError else Inr (a / b))"

text \<open>Results of a sequence of steps, up to the first exception.\<close>

fun collect :: "(error + 'a) list \<Rightarrow> error + 'a list" where
  "collect [] = Inr []"
| "collect (x # xs) =
     (case x of
        Inl e \<Rightarrow> Inl e
      | Inr v \<Rightarrow> (case collect xs of Inl e \<Rightarrow> Inl e | Inr vs \<Rightarrow> Inr (v # vs)))"

text \<open>
  The stream properties shared by \<open>streamer.py\<close> and \<open>tester.py\<close>: the values of
  \<open>expected_eeg_streams\<close> have the first three keys, \<open>expected_marker_stream\<close> adds the
  name, and the generator configurations add their own keys.
\<close>

record props =
  type :: string
  n_channels :: int
  srate :: int

record named_props = props +
  name :: string

record eeg_config = named_props +
  amplitude :: int

record marker_config = named_props +
  marker_interval_ms :: "int list"
  marker_types :: "string list"

section \<open>tester.py: the verifier\<close>

text \<open>
  One row of \<open>time_series\<close>: numeric channel values, or the labels of a marker sample.
\<close>

datatype sample = Numeric "real list" | Labels "string list"

fun slice_sample :: "sample \<Rightarrow> int \<Rightarrow> sample" where
  "slice_sample (Numeric xs) k = Numeric (slice_to xs k)"
| "slice_sample (Labels xs) k = Labels (slice_to xs k)"

text \<open>
  A stream as the loader returns it. The four \<open>info\<close> entries are held already
  converted (\<open>int(...)\<close>, \<open>float(...)\<close>); floats are real numbers here.
\<close>

record recorded_stream =
  info_name :: string
  info_type :: string
  channel_count :: int
  nominal_srate :: real
  time_series :: "sample list"
  time_stamps :: "real list"

text \<open>The lines the verifier prints, one constructor per \<open>print\<close> statement.\<close>

datatype msg =
    VerifyingFile string
  | LoadedStreams nat string
  | ErrorLoading string
  | EnsurePathHint
  | StreamHeader nat string
  | TypeLine string
  | ChannelsLine int
  | NominalRateLine real
  | TotalSamplesLine nat
  | FirstSamplesHeader
  | SampleLine nat sample real
  | LastSampleLine sample real
  | ActualRateLine real
  | RateWarning string
  | ZeroDurationWarning
  | MarkerStdLine "real option"
  | VerifiedEEG string
  | VerifiedMarker
  | Mismatch string
  | InfoUnexpected string
  | Separator
  | SummaryHeader
  | FoundEEG string
  | MissingEEG string
  | FoundMarker string
  | MissingMarker string
  | AllVerified
  | SomeMissing
  | VerificationComplete

definition expected_eeg_streams :: "(string \<times> props) list" where
  "expected_eeg_streams =
     [(''EEG_Stream_1Hz'', \<lparr>type = ''EEG'', n_channels = 4, srate = 1\<rparr>),
      (''EEG_Stream_10Hz'', \<lparr>type = ''EEG'', n_channels = 8, srate = 10\<rparr>),
      (''EEG_Stream_250Hz'', \<lparr>type = ''EEG'', n_channels = 16, srate = 250\<rparr>),
      (''EEG_Stream_500Hz'', \<lparr>type = ''EEG'', n_channels = 32, srate = 500\<rparr>)]"

definition expected_marker_stream :: named_props where
  "expected_marker_stream =
     \<lparr>type = ''Markers'', n_channels = 1, srate = 0, name = ''Test_Markers''\<rparr>"

text \<open>Both tables as one list of entries: name, type, channel count and nominal rate.\<close>

definition catalog :: "(string \<times> string \<times> int \<times> int) list" where
  "catalog =
     map (\<lambda>(nm, e). (nm, type e, n_channels e, srate e)) expected_eeg_streams @
     [(name expected_marker_stream, type expected_marker_stream,
       n_channels expected_marker_stream, srate expected_marker_stream)]"

text \<open>The two flags the loop over the streams updates.\<close>

record found =
  found_eeg_streams :: "(string \<times> bool) list"
  found_marker_stream :: bool

definition initial_found :: found where
  "initial_found =
     \<lparr>found_eeg_streams = map (\<lambda>(nm, _). (nm, False)) expected_eeg_streams,
      found_marker_stream = False\<rparr>"

subsection \<open>Printing the samples (lines 55 to 64)\<close>

definition sample_line :: "recorded_stream \<Rightarrow> nat \<Rightarrow> error + msg" where
  "sample_line stream j =
     (case index (time_series stream) (int j) of
        Inl e \<Rightarrow> Inl e
      | Inr row \<Rightarrow>
          (case index (time_stamps stream) (int j) of
             Inl e \<Rightarrow> Inl e
           | Inr t \<Rightarrow>
               Inr (SampleLine (j + 1)
                      (if info_type stream = ''Markers'' then row
                       else slice_sample row (min 5 (channel_count stream)))
                      t)))"

definition print_samples :: "recorded_stream \<Rightarrow> error + msg list" where
  "print_samples stream =
     (case collect (map (sample_line stream) [0 ..< min 5 (length (time_series stream))]) of
        Inl e \<Rightarrow> Inl e
      | Inr lines \<Rightarrow>
          (case index (time_series stream) (- 1) of
             Inl e \<Rightarrow> Inl e
           | Inr row \<Rightarrow>
               (case index (time_stamps stream) (- 1) of
                  Inl e \<Rightarrow> Inl e
                | Inr t \<Rightarrow> Inr ([FirstSamplesHeader] @ lines @ [LastSampleLine row t]))))"

subsection \<open>The sampling-rate check (lines 66 to 78)\<close>

text \<open>\<open>np.diff\<close> and \<open>np.std\<close>; the standard deviation of no values is NaN, here \<open>None\<close>.\<close>

definition np_diff :: "real list \<Rightarrow> real list" where
  "np_diff xs = map (\<lambda>(a, b). b - a) (zip xs (tl xs))"

definition np_mean :: "real list \<Rightarrow> real" where
  "np_mean xs = sum_list xs / real (length xs)"

definition np_std :: "real list \<Rightarrow> real option" where
  "np_std xs =
     (if xs = [] then None
      else Some (sqrt (np_mean (map (\<lambda>x. \<bar>x - np_mean xs\<bar> ^ 2) xs))))"

definition rate_check :: "recorded_stream \<Rightarrow> error + msg list" where
  "rate_check stream =
     (let srate = nominal_srate stream; ts = time_stamps stream in
      if srate > 0 \<and> length ts > 1 then
        (case index ts (- 1) of
           Inl e \<Rightarrow> Inl e
         | Inr t_last \<Rightarrow>
             (case index ts 0 of
                Inl e \<Rightarrow> Inl e
              | Inr t_first \<Rightarrow>
                  (let actual_duration = t_last - t_first in
                   if actual_duration > 0 then
                     (case float_div (real_of_int (int (length ts) - 1)) actual_duration of
                        Inl e \<Rightarrow> Inl e
                      | Inr actual_srate \<Rightarrow>
                          (case float_div \<bar>actual_srate - srate\<bar> srate of
                             Inl e \<Rightarrow> Inl e
                           | Inr deviation \<Rightarrow>
                               Inr ([ActualRateLine actual_srate] @
                                    (if deviation > 1 / 10
                                     then [RateWarning (info_name stream)] else []))))
                   else Inr [ZeroDurationWarning])))
      else if srate = 0 \<and> length (time_series stream) > 1 then
        Inr [MarkerStdLine (np_std (np_diff ts))]
      else Inr [])"

text \<open>
  The arithmetic of \<open>rate_check\<close> is exact. The program computes in IEEE doubles:
  \<open>round_double\<close> rounds a real number to the nearest number with 53 significant bits,
  ties to even (away from overflow and from the subnormal range), and
  \<open>rate_check_double\<close> is the first branch of the check (lines 67 to 75) with every
  operation and the literal \<open>0.1\<close> rounded. The length of a sequence converts
  exactly, and \<open>abs\<close> is exact.
\<close>

definition round_half_even :: "real \<Rightarrow> int" where
  "round_half_even q =
     (let f = \<lfloor>q\<rfloor> in
      if q - of_int f < 1 / 2 then f
      else if q - of_int f > 1 / 2 then f + 1
      else if even f then f else f + 1)"





subsection \<open>The check against the expected configuration (lines 82 to 101)\<close>

definition matches :: "recorded_stream \<Rightarrow> ('a props_scheme) \<Rightarrow> bool" where
  "matches stream expected \<longleftrightarrow>
     info_type stream = type expected \<and>
     channel_count stream = n_channels expected \<and>
     nominal_srate stream = real_of_int (srate expected)"

definition specific_check :: "recorded_stream \<Rightarrow> found \<Rightarrow> msg list \<times> found" where
  "specific_check stream fs =
     (let stream_name = info_name stream in
      case map_of expected_eeg_streams stream_name of
        Some expected \<Rightarrow>
          if matches stream expected
          then ([VerifiedEEG stream_name],
                fs\<lparr>found_eeg_streams :=
                     AList.update stream_name True (found_eeg_streams fs)\<rparr>)
          else ([Mismatch stream_name], fs)
      | None \<Rightarrow>
          if stream_name = name expected_marker_stream then
            (if matches stream expected_marker_stream
             then ([VerifiedMarker], fs\<lparr>found_marker_stream := True\<rparr>)
             else ([Mismatch stream_name], fs))
          else ([InfoUnexpected stream_name], fs))"

subsection \<open>The loop over the streams (lines 39 to 103)\<close>

definition process_stream ::
  "nat \<Rightarrow> recorded_stream \<Rightarrow> found \<Rightarrow> error + (msg list \<times> found)" where
  "process_stream i stream fs =
     (let header =
            [StreamHeader (i + 1) (info_name stream),
             TypeLine (info_type stream),
             ChannelsLine (channel_count stream),
             NominalRateLine (nominal_srate stream),
             TotalSamplesLine (length (time_series stream))];
          (checked, fs') = specific_check stream fs
      in if length (time_series stream) > 0 then
           (case print_samples stream of
              Inl e \<Rightarrow> Inl e
            | Inr samples \<Rightarrow>
                (case rate_check stream of
                   Inl e \<Rightarrow> Inl e
                 | Inr rate \<Rightarrow>
                     Inr (header @ samples @ rate @ checked @ [Separator], fs')))
         else Inr (header @ checked @ [Separator], fs'))"

fun process_streams ::
  "nat \<Rightarrow> recorded_stream list \<Rightarrow> found \<Rightarrow> error + (msg list \<times> found)" where
  "process_streams i [] fs = Inr ([], fs)"
| "process_streams i (stream # streams) fs =
     (case process_stream i stream fs of
        Inl e \<Rightarrow> Inl e
      | Inr (out, fs') \<Rightarrow>
          (case process_streams (i + 1) streams fs' of
             Inl e \<Rightarrow> Inl e
           | Inr (rest, fs'') \<Rightarrow> Inr (out @ rest, fs'')))"

subsection \<open>The summary (lines 105 to 125)\<close>

fun summary_eeg :: "(string \<times> bool) list \<Rightarrow> msg list \<times> bool \<Rightarrow> msg list \<times> bool" where
  "summary_eeg [] acc = acc"
| "summary_eeg ((nm, fnd) # items) (out, all_expected_found) =
     (if fnd then summary_eeg items (out @ [FoundEEG nm], all_expected_found)
      else summary_eeg items (out @ [MissingEEG nm], False))"

definition summary :: "found \<Rightarrow> msg list" where
  "summary fs =
     (let (out, all_expected_found) =
            summary_eeg (found_eeg_streams fs) ([SummaryHeader], True);
          (out, all_expected_found) =
            (if found_marker_stream fs
             then (out @ [FoundMarker (name expected_marker_stream)], all_expected_found)
             else (out @ [MissingMarker (name expected_marker_stream)], False))
      in if all_expected_found then out @ [AllVerified] else out @ [SomeMissing])"

subsection \<open>The whole function\<close>

text \<open>
  \<open>pyxdf.load_xdf\<close> is an external library: the loader is a parameter, returning
  the streams of the file or \<open>Inl\<close> of the text of the exception it raised.
\<close>

definition verify_xdf_recording ::
  "(string \<Rightarrow> string + recorded_stream list) \<Rightarrow> string \<Rightarrow> error + msg list" where
  "verify_xdf_recording load_xdf xdf_filepath =
     (case load_xdf xdf_filepath of
        Inl e \<Rightarrow> Inr [VerifyingFile xdf_filepath, ErrorLoading e, EnsurePathHint]
      | Inr streams \<Rightarrow>
          (case process_streams 0 streams initial_found of
             Inl e \<Rightarrow> Inl e
           | Inr (out, fs) \<Rightarrow>
               Inr ([VerifyingFile xdf_filepath,
                     LoadedStreams (length streams) xdf_filepath] @
                    out @ summary fs @ [VerificationComplete])))"

section \<open>streamer.py: the broadcaster\<close>

definition eeg_stream_configs :: "eeg_config list" where
  "eeg_stream_configs =
     [\<lparr>type = ''EEG'', n_channels = 4, srate = 1,
       name = ''EEG_Stream_1Hz'', amplitude = 50\<rparr>,
      \<lparr>type = ''EEG'', n_channels = 8, srate = 10,
       name = ''EEG_Stream_10Hz'', amplitude = 100\<rparr>,
      \<lparr>type = ''EEG'', n_channels = 16, srate = 250,
       name = ''EEG_Stream_250Hz'', amplitude = 200\<rparr>,
      \<lparr>type = ''EEG'', n_channels = 32, srate = 500,
       name = ''EEG_Stream_500Hz'', amplitude = 400\<rparr>]"

definition marker_stream_config :: marker_config where
  "marker_stream_config =
     \<lparr>type = ''Markers'', n_channels = 1, srate = 0, name = ''Test_Markers'',
      marker_interval_ms = [500, 2000],
      marker_types = [''Onset'', ''Stimulus'', ''Response'', ''Error'', ''Event_A'', ''Event_B'']\<rparr>"

text \<open>
  What a generator does, in order: the outlet it creates, the lines it prints, the
  samples it pushes and the suspensions it asks for (in seconds).
\<close>

datatype event =
    CreateOutlet string string int int string string
  | Created string
  | Push sample
  | SentMarker string
  | Sleep real
  | Stopped string

text \<open>The stream identifier: \<open>name.lower().replace(" ", "") + "_uid"\<close> (ASCII letters).\<close>

definition lower :: "string \<Rightarrow> string" where
  "lower s =
     map (\<lambda>c. let n = (of_char c :: nat)
              in if 65 \<le> n \<and> n \<le> 90 then char_of (n + 32) else c) s"

definition uid :: "string \<Rightarrow> string" where
  "uid nm = filter (\<lambda>c. c \<noteq> CHR '' '') (lower nm) @ ''_uid''"

text \<open>
  The random module is an input of the model. \<open>random.uniform(a, b)\<close> is
  \<open>a + (b - a) * random()\<close>, where \<open>random()\<close> is a draw from \<open>[0, 1)\<close>;
  \<open>random.choice(seq)\<close> raises \<open>IndexError\<close> on an empty sequence and otherwise takes
  the element at a drawn position below the length.
\<close>

definition uniform :: "real \<Rightarrow> real \<Rightarrow> real \<Rightarrow> real" where
  "uniform a b r = a + (b - a) * r"

definition choice :: "'a list \<Rightarrow> nat \<Rightarrow> error + 'a" where
  "choice seq n = (if seq = [] then Inl IndexError else Inr (seq ! (n mod length seq)))"

text \<open>\<open>time.sleep\<close> refuses a negative duration.\<close>

definition sleep :: "real \<Rightarrow> error + event" where
  "sleep secs = (if secs < 0 then Inl ValueError else Inr (Sleep secs))"

subsection \<open>create_eeg_stream\<close>

text \<open>One channel of a sample (line 44); \<open>%\<close> and \<open>/\<close> raise on a zero rate.\<close>

definition eeg_value :: "eeg_config \<Rightarrow> int \<Rightarrow> real \<Rightarrow> error + real" where
  "eeg_value config sample_count r =
     (let u = uniform (- 0.5) 0.5 r in
      if srate config * 2 = 0 then Inl ZeroDivisionError
      else
        (case float_div (0.2 * real_of_int (sample_count mod (srate config * 2)))
                (real_of_int (srate config)) of
           Inl e \<Rightarrow> Inl e
         | Inr saw \<Rightarrow> Inr (real_of_int (amplitude config) * (u + saw))))"

text \<open>The body of the loop (lines 43 to 49); \<open>rs j\<close> is the draw for channel \<open>j\<close>.\<close>

definition eeg_body ::
  "eeg_config \<Rightarrow> (nat \<Rightarrow> real) \<Rightarrow> int \<Rightarrow> error + (event list \<times> int)" where
  "eeg_body config rs sample_count =
     (case collect (map (\<lambda>j. eeg_value config sample_count (rs j))
                      [0 ..< nat (n_channels config)]) of
        Inl e \<Rightarrow> Inl e
      | Inr sample \<Rightarrow>
          (case float_div 1 (real_of_int (srate config)) of
             Inl e \<Rightarrow> Inl e
           | Inr secs \<Rightarrow>
               (case sleep secs of
                  Inl e \<Rightarrow> Inl e
                | Inr suspended \<Rightarrow>
                    Inr ([Push (Numeric sample), suspended], sample_count + 1))))"

text \<open>
  The loop (lines 40 to 49). \<open>is_set k\<close> is what \<open>stop_event.is_set()\<close> returns the
  \<open>k\<close>-th time the loop condition is evaluated (counting from 0), and \<open>rnd k\<close> are
  the draws of that iteration. A loop whose stop signal is never set does not return:
  its value is \<open>None\<close>.
\<close>

partial_function (option) eeg_loop ::
  "eeg_config \<Rightarrow> (nat \<Rightarrow> bool) \<Rightarrow> (nat \<Rightarrow> nat \<Rightarrow> real) \<Rightarrow> nat \<Rightarrow> int \<Rightarrow> event list
     \<Rightarrow> (error + (event list \<times> int)) option" where
  "eeg_loop config is_set rnd k sample_count out =
     (if is_set k then Some (Inr (out, sample_count))
      else
        (case eeg_body config (rnd k) sample_count of
           Inl e \<Rightarrow> Some (Inl e)
         | Inr (events, sample_count') \<Rightarrow>
             eeg_loop config is_set rnd (k + 1) sample_count' (out @ events)))"

definition create_eeg_stream ::
  "eeg_config \<Rightarrow> (nat \<Rightarrow> bool) \<Rightarrow> (nat \<Rightarrow> nat \<Rightarrow> real) \<Rightarrow> (error + event list) option" where
  "create_eeg_stream config is_set rnd =
     (case eeg_loop config is_set rnd 0 0
             [CreateOutlet (name config) (type config) (n_channels config) (srate config)
                ''float32'' (uid (name config)),
              Created (name config)] of
        None \<Rightarrow> None
      | Some (Inl e) \<Rightarrow> Some (Inl e)
      | Some (Inr (out, _)) \<Rightarrow> Some (Inr (out @ [Stopped (name config)])))"

subsection \<open>create_marker_stream\<close>

text \<open>The body of the loop (lines 66 to 70): \<open>pick\<close> and \<open>r\<close> are its two draws.\<close>

definition marker_body :: "marker_config \<Rightarrow> nat \<Rightarrow> real \<Rightarrow> error + event list" where
  "marker_body config pick r =
     (case choice (marker_types config) pick of
        Inl e \<Rightarrow> Inl e
      | Inr marker \<Rightarrow>
          (case index (marker_interval_ms config) 0 of
             Inl e \<Rightarrow> Inl e
           | Inr lo \<Rightarrow>
               (case index (marker_interval_ms config) 1 of
                  Inl e \<Rightarrow> Inl e
                | Inr hi \<Rightarrow>
                    (let sleep_time = uniform (real_of_int lo) (real_of_int hi) r / 1000.0
                     in case sleep sleep_time of
                          Inl e \<Rightarrow> Inl e
                        | Inr suspended \<Rightarrow>
                            Inr [Push (Labels [marker]), SentMarker marker, suspended]))))"

partial_function (option) marker_loop ::
  "marker_config \<Rightarrow> (nat \<Rightarrow> bool) \<Rightarrow> (nat \<Rightarrow> nat) \<Rightarrow> (nat \<Rightarrow> real) \<Rightarrow> nat \<Rightarrow> event list
     \<Rightarrow> (error + event list) option" where
  "marker_loop config is_set picks rnd k out =
     (if is_set k then Some (Inr out)
      else
        (case marker_body config (picks k) (rnd k) of
           Inl e \<Rightarrow> Some (Inl e)
         | Inr events \<Rightarrow> marker_loop config is_set picks rnd (k + 1) (out @ events)))"

definition create_marker_stream ::
  "marker_config \<Rightarrow> (nat \<Rightarrow> bool) \<Rightarrow> (nat \<Rightarrow> nat) \<Rightarrow> (nat \<Rightarrow> real)
     \<Rightarrow> (error + event list) option" where
  "create_marker_stream config is_set picks rnd =
     (case marker_loop config is_set picks rnd 0
             [CreateOutlet (name config) (type config) (n_channels config) (srate config)
                ''string'' (uid (name config)),
              Created (name config)] of
        None \<Rightarrow> None
      | Some (Inl e) \<Rightarrow> Some (Inl e)
      | Some (Inr out) \<Rightarrow> Some (Inr (out @ [Stopped (name config)])))"

text \<open>
  The time between consecutive pushes of a trace, when time passes only in the
  suspensions: the first argument is the time slept since the last push, if there was one.
\<close>

fun gaps_from :: "real option \<Rightarrow> event list \<Rightarrow> real list" where
  "gaps_from since [] = []"
| "gaps_from since (Push x # es) =
     (case since of None \<Rightarrow> [] | Some g \<Rightarrow> [g]) @ gaps_from (Some 0) es"
| "gaps_from since (Sleep d # es) = gaps_from (map_option (\<lambda>g. g + d) since) es"
| "gaps_from since (e # es) = gaps_from since es"

definition gaps :: "event list \<Rightarrow> real list" where
  "gaps es = gaps_from None es"

subsection \<open>Notions used to state the properties of the broadcaster\<close>

text \<open>
  The value formula of the spec, in the spec's names: \<open>u\<close> is the uniform draw of
  the channel. \<open>spec_sample\<close> is the sample that has this value in every channel.
\<close>

definition spec_value :: "real \<Rightarrow> int \<Rightarrow> int \<Rightarrow> real \<Rightarrow> real" where
  "spec_value amp nominalRate sampleCounter u =
     amp * (u + 0.2 * real_of_int (sampleCounter mod (2 * nominalRate)) /
                real_of_int nominalRate)"

definition spec_sample :: "eeg_config \<Rightarrow> (nat \<Rightarrow> real) \<Rightarrow> int \<Rightarrow> real list" where
  "spec_sample config rs sampleCounter =
     map (\<lambda>j. spec_value (real_of_int (amplitude config)) (srate config) sampleCounter
                 (uniform (- 0.5) 0.5 (rs j)))
       [0 ..< nat (n_channels config)]"

text \<open>The three events of one iteration of the marker loop that raises nothing.\<close>

definition marker_events :: "marker_config \<Rightarrow> nat \<Rightarrow> real \<Rightarrow> event list" where
  "marker_events config pick r =
     [Push (Labels [marker_types config ! (pick mod length (marker_types config))]),
      SentMarker (marker_types config ! (pick mod length (marker_types config))),
      Sleep (uniform (real_of_int (marker_interval_ms config ! 0))
                     (real_of_int (marker_interval_ms config ! 1)) r / 1000)]"

text \<open>The samples a trace pushes, in order.\<close>

fun pushes :: "event list \<Rightarrow> sample list" where
  "pushes [] = []"
| "pushes (Push x # es) = x # pushes es"
| "pushes (e # es) = pushes es"

subsection \<open>Notions used to state the properties of the verifier\<close>

text \<open>
  The loader returns as many timestamps as samples for every stream; the verifier reads
  both sequences by position and relies on it.
\<close>

definition well_formed :: "recorded_stream \<Rightarrow> bool" where
  "well_formed stream \<longleftrightarrow> length (time_stamps stream) = length (time_series stream)"

text \<open>What the check against the expected configuration does to the flags.\<close>

definition mark :: "found \<Rightarrow> recorded_stream \<Rightarrow> found" where
  "mark fs stream = snd (specific_check stream fs)"

text \<open>The rate the verifier measures: \<open>(count - 1) / (last - first)\<close>.\<close>

definition actual_srate :: "recorded_stream \<Rightarrow> real" where
  "actual_srate stream =
     real (length (time_stamps stream) - 1) /
       (last (time_stamps stream) - hd (time_stamps stream))"

text \<open>
  A catalog entry is found and matched in a recording when some stream of the recording
  has its name, type, channel count and nominal rate.
\<close>

definition found_and_matched :: "recorded_stream list \<Rightarrow> string \<times> string \<times> int \<times> int \<Rightarrow> bool" where
  "found_and_matched streams entry =
     (case entry of (nm, t, c, r) \<Rightarrow>
        list_ex (\<lambda>stream. info_name stream = nm \<and> info_type stream = t \<and>
                           channel_count stream = c \<and>
                           nominal_srate stream = real_of_int r) streams)"

text \<open>The same, against the two tables of the verifier.\<close>

definition eeg_hit :: "recorded_stream \<Rightarrow> string \<Rightarrow> bool" where
  "eeg_hit stream nm \<longleftrightarrow>
     info_name stream = nm \<and>
     (\<exists>e. map_of expected_eeg_streams nm = Some e \<and> matches stream e)"

definition marker_hit :: "recorded_stream \<Rightarrow> bool" where
  "marker_hit stream \<longleftrightarrow>
     info_name stream = name expected_marker_stream \<and> matches stream expected_marker_stream"

text \<open>The lines of a stream that report neither a rate nor an outcome.\<close>

fun neutral :: "msg \<Rightarrow> bool" where
  "neutral (StreamHeader i nm) = True"
| "neutral (TypeLine t) = True"
| "neutral (ChannelsLine c) = True"
| "neutral (NominalRateLine r) = True"
| "neutral (TotalSamplesLine n) = True"
| "neutral FirstSamplesHeader = True"
| "neutral (SampleLine j x t) = True"
| "neutral (LastSampleLine x t) = True"
| "neutral Separator = True"
| "neutral m = False"

text \<open>
  A recording built from the configurations of the broadcaster: the properties of each
  stream are copied from its configuration, and the timestamps of a continuous stream
  start at \<open>t0\<close> and are spaced by \<open>1 / rate\<close>.
\<close>

definition recorded_eeg :: "eeg_config \<Rightarrow> real \<Rightarrow> sample list \<Rightarrow> recorded_stream" where
  "recorded_eeg config t0 rows =
     \<lparr>info_name = name config, info_type = type config,
      channel_count = n_channels config, nominal_srate = real_of_int (srate config),
      time_series = rows,
      time_stamps = map (\<lambda>i. t0 + real i / real_of_int (srate config)) [0 ..< length rows]\<rparr>"

definition recorded_marker :: "marker_config \<Rightarrow> (real \<times> string) list \<Rightarrow> recorded_stream" where
  "recorded_marker config marks =
     \<lparr>info_name = name config, info_type = type config,
      channel_count = n_channels config, nominal_srate = real_of_int (srate config),
      time_series = map (\<lambda>(t, label). Labels [label]) marks,
      time_stamps = map fst marks\<rparr>"

definition synthetic_recording ::
  "(nat \<Rightarrow> real) \<Rightarrow> (nat \<Rightarrow> sample list) \<Rightarrow> (real \<times> string) list \<Rightarrow> recorded_stream list" where
  "synthetic_recording t0 rows marks =
     map (\<lambda>i. recorded_eeg (eeg_stream_configs ! i) (t0 i) (rows i))
       [0 ..< length eeg_stream_configs] @
     [recorded_marker marker_stream_config marks]"

section \<open>Properties of the verifier\<close>

subsection \<open>Indexing and exceptions\<close>

lemma index_last: "xs \<noteq> [] \<Longrightarrow> index xs (- 1) = Inr (last xs)"
proof -
  assume ne: "xs \<noteq> []"
  then have "nat (int (length xs) - 1) = length xs - 1" "0 < length xs" by auto
  then show ?thesis using ne
    by (simp add: index_def Let_def last_conv_nth)
qed

lemma index_first: "xs \<noteq> [] \<Longrightarrow> index xs 0 = Inr (hd xs)"
  by (simp add: index_def Let_def hd_conv_nth)

lemma index_not_zero_division: "index xs i \<noteq> Inl ZeroDivisionError"
  by (simp add: index_def Let_def)

lemma collect_error: "collect xs = Inl e \<Longrightarrow> Inl e \<in> set xs"
  by (induction xs) (auto split: sum.splits)

lemma rate_check_no_zero_division: "rate_check stream \<noteq> Inl ZeroDivisionError"
  by (auto simp: rate_check_def Let_def float_div_def index_def split: sum.splits if_splits)

lemma sample_line_no_zero_division: "sample_line stream j \<noteq> Inl ZeroDivisionError"
  by (auto simp: sample_line_def index_def Let_def split: sum.splits)

lemma print_samples_no_zero_division: "print_samples stream \<noteq> Inl ZeroDivisionError"
proof
  assume a: "print_samples stream = Inl ZeroDivisionError"
  show False
  proof (cases "collect (map (sample_line stream) [0 ..< min 5 (length (time_series stream))])")
    case (Inl e)
    with a have "e = ZeroDivisionError" by (simp add: print_samples_def)
    with Inl collect_error
    have "Inl ZeroDivisionError \<in>
            set (map (sample_line stream) [0 ..< min 5 (length (time_series stream))])"
      by blast
    then obtain j where "sample_line stream j = Inl ZeroDivisionError" by auto
    then show False using sample_line_no_zero_division by blast
  next
    case (Inr lines)
    with a show False
      by (auto simp: print_samples_def index_def Let_def split: sum.splits if_splits)
  qed
qed

lemma process_stream_no_zero_division: "process_stream i stream fs \<noteq> Inl ZeroDivisionError"
  using print_samples_no_zero_division [of stream] rate_check_no_zero_division [of stream]
  by (auto simp: process_stream_def Let_def split: sum.splits prod.splits if_splits)

lemma process_streams_no_zero_division:
  "process_streams i streams fs \<noteq> Inl ZeroDivisionError"
proof (induction streams arbitrary: i fs)
  case Nil
  show ?case by simp
next
  case (Cons s streams)
  show ?case
    using process_stream_no_zero_division [of i s fs] Cons.IH
    by (auto split: sum.splits prod.splits)
qed

subsection \<open>The sampling-rate check\<close>

lemma rate_check_regular:
  assumes "0 < nominal_srate stream" "2 \<le> length (time_stamps stream)"
    "hd (time_stamps stream) < last (time_stamps stream)"
  shows "rate_check stream =
    Inr (ActualRateLine (real (length (time_stamps stream) - 1) /
                 (last (time_stamps stream) - hd (time_stamps stream))) #
         (if \<bar>real (length (time_stamps stream) - 1) /
                 (last (time_stamps stream) - hd (time_stamps stream)) - nominal_srate stream\<bar>
               / nominal_srate stream > 1 / 10
          then [RateWarning (info_name stream)] else []))"
proof -
  have ne: "time_stamps stream \<noteq> []" using assms(2) by auto
  have len: "real_of_int (int (length (time_stamps stream)) - 1) =
               real (length (time_stamps stream) - 1)"
    using assms(2) by simp
  show ?thesis
    using assms
    by (simp add: rate_check_def Let_def index_last [OF ne] index_first [OF ne]
        float_div_def len)
qed

lemma rate_check_actual_rate:
  assumes "rate_check stream = Inr out" "ActualRateLine a \<in> set out"
  shows "0 < nominal_srate stream \<and> 2 \<le> length (time_stamps stream) \<and>
         0 < last (time_stamps stream) - hd (time_stamps stream) \<and>
         a = real (length (time_stamps stream) - 1) /
               (last (time_stamps stream) - hd (time_stamps stream))"
proof (cases "0 < nominal_srate stream \<and> 2 \<le> length (time_stamps stream) \<and>
         hd (time_stamps stream) < last (time_stamps stream)")
  case True
  then show ?thesis using assms rate_check_regular [of stream]
    by (auto split: if_splits)
next
  case False
  show ?thesis
  proof (cases "0 < nominal_srate stream \<and> 1 < length (time_stamps stream)")
    case guard: True
    then have ne: "time_stamps stream \<noteq> []" by auto
    from guard False have "\<not> 0 < last (time_stamps stream) - hd (time_stamps stream)"
      by auto
    with guard have "rate_check stream = Inr [ZeroDurationWarning]"
      by (simp add: rate_check_def Let_def index_last [OF ne] index_first [OF ne])
    with assms show ?thesis by auto
  next
    case guard: False
    then have "rate_check stream = Inr [] \<or>
        rate_check stream = Inr [MarkerStdLine (np_std (np_diff (time_stamps stream)))]"
      by (auto simp: rate_check_def Let_def)
    with assms show ?thesis by auto
  qed
qed

text \<open>
  C9. The verifier never divides by zero. Both divisions of the rate check raise
  \<open>ZeroDivisionError\<close> on a zero divisor in the model, and neither the rate check nor
  the whole verification of any recording ends in that exception; an actual rate is
  printed only for a stream with a positive nominal rate, at least two timestamps and a
  positive duration, and it is then \<open>(count - 1) / (last - first)\<close>.
\<close>

theorem verifier_never_divides_by_zero:
  "verify_xdf_recording load_xdf xdf_filepath \<noteq> Inl ZeroDivisionError \<and>
   rate_check stream \<noteq> Inl ZeroDivisionError \<and>
   (\<forall>out a. rate_check stream = Inr out \<and> ActualRateLine a \<in> set out \<longrightarrow>
      0 < nominal_srate stream \<and> 2 \<le> length (time_stamps stream) \<and>
      0 < last (time_stamps stream) - hd (time_stamps stream) \<and>
      a = real (length (time_stamps stream) - 1) /
            (last (time_stamps stream) - hd (time_stamps stream)))"
proof -
  have "verify_xdf_recording load_xdf xdf_filepath \<noteq> Inl ZeroDivisionError"
    using process_streams_no_zero_division
    by (auto simp: verify_xdf_recording_def split: sum.splits prod.splits)
  then show ?thesis
    using rate_check_no_zero_division rate_check_actual_rate by blast
qed

theorem verifier_never_divides_by_zero_witness:
  "rate_check \<lparr>info_name = ''EEG_Stream_1Hz'', info_type = ''EEG'', channel_count = 4,
       nominal_srate = 1, time_series = [Numeric [0, 0, 0, 0], Numeric [0, 0, 0, 0]],
       time_stamps = [3, 7]\<rparr> = Inr [ActualRateLine (1 / 4), RateWarning ''EEG_Stream_1Hz''] \<and>
   ActualRateLine (1 / 4) \<in> set [ActualRateLine (1 / 4), RateWarning ''EEG_Stream_1Hz''] \<and>
   (1 / 4 :: real) = real (length [3, 7 :: real] - 1) / (last [3, 7] - hd [3, 7]) \<and>
   verify_xdf_recording (\<lambda>p. Inr []) ''f.xdf'' \<noteq> Inl ZeroDivisionError"
  using verifier_never_divides_by_zero [of "\<lambda>p. Inr []" "''f.xdf''"
      "\<lparr>info_name = ''EEG_Stream_1Hz'', info_type = ''EEG'', channel_count = 4,
       nominal_srate = 1, time_series = [Numeric [0, 0, 0, 0], Numeric [0, 0, 0, 0]],
       time_stamps = [3, 7]\<rparr>"]
  by (simp add: rate_check_def index_def float_div_def)

subsection \<open>Loading\<close>

text \<open>
  C4. When the loader fails, the verifier prints its first line, the load error and the
  hint, and returns: the output holds no line of any stream and no line of the summary.
\<close>

theorem load_failure_aborts:
  assumes "load_xdf xdf_filepath = Inl e"
  shows "verify_xdf_recording load_xdf xdf_filepath =
           Inr [VerifyingFile xdf_filepath, ErrorLoading e, EnsurePathHint]"
  using assms by (simp add: verify_xdf_recording_def)

theorem load_failure_aborts_witness:
  "verify_xdf_recording (\<lambda>p. Inl ''No such file'') ''my_recorded_streams.xdf'' =
     Inr [VerifyingFile ''my_recorded_streams.xdf'', ErrorLoading ''No such file'',
          EnsurePathHint]"
  using load_failure_aborts
    [of "\<lambda>p. Inl ''No such file''" "''my_recorded_streams.xdf''" "''No such file''"]
  by simp

subsection \<open>Mismatches\<close>

lemma catalog_cases:
  assumes "(nm, t, c, r) \<in> set catalog"
  shows "(map_of expected_eeg_streams nm = Some \<lparr>type = t, n_channels = c, srate = r\<rparr>) \<or>
         (map_of expected_eeg_streams nm = None \<and> nm = name expected_marker_stream \<and>
          t = type expected_marker_stream \<and> c = n_channels expected_marker_stream \<and>
          r = srate expected_marker_stream)"
  using assms by (auto simp: catalog_def expected_eeg_streams_def expected_marker_stream_def)

text \<open>
  C5, as the code has it. A stream whose name is in the catalog and whose type, channel
  count or nominal rate differs from the entry gets the mismatch line, which carries the
  name of the stream and nothing else, and leaves both flags as they were.
\<close>

theorem mismatch_names_stream_only:
  assumes "(info_name stream, t, c, r) \<in> set catalog"
    and "info_type stream \<noteq> t \<or> channel_count stream \<noteq> c \<or>
         nominal_srate stream \<noteq> real_of_int r"
  shows "specific_check stream fs = ([Mismatch (info_name stream)], fs)"
  using catalog_cases [OF assms(1)] assms(2)
  by (auto simp: specific_check_def matches_def Let_def)

theorem mismatch_names_stream_only_witness:
  "(''EEG_Stream_10Hz'', ''EEG'', 8, 10) \<in> set catalog \<and>
   specific_check \<lparr>info_name = ''EEG_Stream_10Hz'', info_type = ''EEG'', channel_count = 7,
       nominal_srate = 10, time_series = [], time_stamps = []\<rparr> initial_found =
     ([Mismatch ''EEG_Stream_10Hz''], initial_found)"
  using mismatch_names_stream_only
    [of "\<lparr>info_name = ''EEG_Stream_10Hz'', info_type = ''EEG'', channel_count = 7,
          nominal_srate = 10, time_series = [], time_stamps = []\<rparr>" "''EEG''" 8 10
        initial_found]
  by (simp add: catalog_def expected_eeg_streams_def)

text \<open>
  C5, as the spec has it, fails: a stream with only the channel count wrong and a
  stream with only the type wrong get the same outcome, so the outcome does not say
  which field differed.
\<close>

theorem mismatch_reason_counterexample:
  "specific_check \<lparr>info_name = ''EEG_Stream_1Hz'', info_type = ''EEG'', channel_count = 5,
       nominal_srate = 1, time_series = [], time_stamps = []\<rparr> initial_found =
     ([Mismatch ''EEG_Stream_1Hz''], initial_found) \<and>
   specific_check \<lparr>info_name = ''EEG_Stream_1Hz'', info_type = ''Markers'', channel_count = 4,
       nominal_srate = 1, time_series = [], time_stamps = []\<rparr> initial_found =
     ([Mismatch ''EEG_Stream_1Hz''], initial_found)"
  by (simp add: specific_check_def matches_def expected_eeg_streams_def)

subsection \<open>The output of the loop over the streams\<close>

lemma collect_total:
  "(\<And>x. x \<in> set xs \<Longrightarrow> \<exists>v. x = Inr v) \<Longrightarrow> \<exists>vs. collect xs = Inr vs"
proof (induction xs)
  case Nil
  show ?case by simp
next
  case (Cons x xs)
  then obtain v vs where "x = Inr v" "collect xs = Inr vs" by (meson list.set_intros)
  then show ?case by simp
qed

lemma collect_values:
  "collect xs = Inr vs \<Longrightarrow> v \<in> set vs \<Longrightarrow> Inr v \<in> set xs"
proof (induction xs arbitrary: vs)
  case Nil
  then show ?case by simp
next
  case (Cons x xs)
  then show ?case by (auto split: sum.splits)
qed

lemma sample_line_shape:
  "sample_line stream j = Inr m \<Longrightarrow> \<exists>k x t. m = SampleLine k x t"
  by (auto simp: sample_line_def split: sum.splits)

lemma print_samples_shape:
  assumes "print_samples stream = Inr lines" "m \<in> set lines"
  shows "(\<exists>k x t. m = SampleLine k x t) \<or> m = FirstSamplesHeader \<or>
         (\<exists>x t. m = LastSampleLine x t)"
proof -
  from assms(1) obtain ls x t where
    c: "collect (map (sample_line stream) [0 ..< min 5 (length (time_series stream))]) = Inr ls"
    and l: "lines = [FirstSamplesHeader] @ ls @ [LastSampleLine x t]"
    by (auto simp: print_samples_def split: sum.splits)
  have "\<exists>k x t. v = SampleLine k x t" if "v \<in> set ls" for v
  proof -
    from collect_values [OF c that] obtain j where "sample_line stream j = Inr v" by auto
    then show ?thesis by (rule sample_line_shape)
  qed
  with l assms(2) show ?thesis by auto
qed

lemma sample_line_ok:
  assumes "j < length (time_series stream)" "j < length (time_stamps stream)"
  shows "\<exists>m. sample_line stream j = Inr m"
  using assms by (simp add: sample_line_def index_def)

lemma print_samples_ok:
  assumes "well_formed stream" "time_series stream \<noteq> []"
  shows "\<exists>lines. print_samples stream = Inr lines"
proof -
  have "\<exists>v. x = Inr v"
    if "x \<in> set (map (sample_line stream) [0 ..< min 5 (length (time_series stream))])" for x
  proof -
    from that obtain j where "j < length (time_series stream)" "x = sample_line stream j"
      by auto
    with assms(1) sample_line_ok [of j stream] show ?thesis by (auto simp: well_formed_def)
  qed
  then obtain ls where
    "collect (map (sample_line stream) [0 ..< min 5 (length (time_series stream))]) = Inr ls"
    using collect_total by blast
  moreover have "time_stamps stream \<noteq> []" using assms by (auto simp: well_formed_def)
  ultimately show ?thesis
    using assms(2) by (simp add: print_samples_def index_last)
qed

lemma rate_check_total: "\<exists>out. rate_check stream = Inr out"
proof (cases "0 < nominal_srate stream \<and> 1 < length (time_stamps stream)")
  case True
  then have ne: "time_stamps stream \<noteq> []" by auto
  from True show ?thesis
    by (simp add: rate_check_def Let_def index_last [OF ne] index_first [OF ne] float_div_def)
next
  case False
  then show ?thesis by (auto simp: rate_check_def Let_def)
qed

lemma rate_check_shape:
  assumes "rate_check stream = Inr out" "m \<in> set out"
  shows "(\<exists>a. m = ActualRateLine a) \<or> m = RateWarning (info_name stream) \<or>
         m = ZeroDurationWarning \<or> (\<exists>v. m = MarkerStdLine v)"
  using assms
  by (auto simp: rate_check_def Let_def split: if_splits sum.splits)

lemma specific_check_shape:
  assumes "m \<in> set (fst (specific_check stream fs))"
  shows "m = VerifiedEEG (info_name stream) \<or> m = VerifiedMarker \<or>
         m = Mismatch (info_name stream) \<or> m = InfoUnexpected (info_name stream)"
  using assms
  by (auto simp: specific_check_def Let_def split: if_splits option.splits)

lemma process_stream_result:
  assumes "process_stream i stream fs = Inr (out, fs')"
  shows "fs' = mark fs stream \<and> AllVerified \<notin> set out \<and> SomeMissing \<notin> set out \<and>
         (\<forall>nm. RateWarning nm \<in> set out \<longrightarrow>
            (\<exists>rate. rate_check stream = Inr rate \<and> RateWarning nm \<in> set rate))"
proof (cases "length (time_series stream) > 0")
  case True
  with assms obtain samples rate where
    p: "print_samples stream = Inr samples" and r: "rate_check stream = Inr rate"
    by (auto simp: process_stream_def Let_def split: sum.splits prod.splits)
  with True assms have out: "out =
      [StreamHeader (i + 1) (info_name stream), TypeLine (info_type stream),
       ChannelsLine (channel_count stream), NominalRateLine (nominal_srate stream),
       TotalSamplesLine (length (time_series stream))] @ samples @ rate @
      fst (specific_check stream fs) @ [Separator]"
    and fs': "fs' = mark fs stream"
    by (auto simp: process_stream_def Let_def mark_def split: prod.splits)
  show ?thesis
    using fs' r print_samples_shape [OF p] rate_check_shape [OF r]
      specific_check_shape [of _ stream fs]
    unfolding out by fastforce
next
  case False
  with assms have out: "out =
      [StreamHeader (i + 1) (info_name stream), TypeLine (info_type stream),
       ChannelsLine (channel_count stream), NominalRateLine (nominal_srate stream),
       TotalSamplesLine (length (time_series stream))] @
      fst (specific_check stream fs) @ [Separator]"
    and fs': "fs' = mark fs stream"
    by (auto simp: process_stream_def Let_def mark_def split: prod.splits)
  show ?thesis
    using fs' specific_check_shape [of _ stream fs]
    unfolding out by fastforce
qed

lemma process_stream_ok:
  assumes "well_formed stream"
  shows "\<exists>out. process_stream i stream fs = Inr (out, mark fs stream)"
proof (cases "length (time_series stream) > 0")
  case True
  then obtain samples where "print_samples stream = Inr samples"
    using print_samples_ok [OF assms] by auto
  moreover obtain rate where "rate_check stream = Inr rate"
    using rate_check_total by blast
  ultimately show ?thesis using True
    by (simp add: process_stream_def Let_def mark_def split: prod.splits)
next
  case False
  then show ?thesis
    by (simp add: process_stream_def Let_def mark_def split: prod.splits)
qed

lemma process_streams_result:
  "process_streams i streams fs = Inr (out, fs') \<Longrightarrow>
     fs' = foldl mark fs streams \<and> AllVerified \<notin> set out \<and> SomeMissing \<notin> set out"
proof (induction streams arbitrary: i fs out)
  case Nil
  then show ?case by simp
next
  case (Cons s streams)
  from Cons.prems obtain o1 f1 o2 where
    a: "process_stream i s fs = Inr (o1, f1)"
    and b: "process_streams (i + 1) streams f1 = Inr (o2, fs')"
    and c: "out = o1 @ o2"
    by (auto split: sum.splits prod.splits)
  from process_stream_result [OF a] Cons.IH [OF b] c show ?case by simp
qed

lemma process_streams_ok:
  "\<forall>s \<in> set streams. well_formed s \<Longrightarrow> \<exists>out. process_streams i streams fs = Inr (out, foldl mark fs streams)"
proof (induction streams arbitrary: i fs)
  case Nil
  then show ?case by simp
next
  case (Cons s streams)
  then obtain o1 where a: "process_stream i s fs = Inr (o1, mark fs s)"
    using process_stream_ok [of s i fs] by auto
  from Cons obtain o2 where
    "process_streams (i + 1) streams (mark fs s) = Inr (o2, foldl mark (mark fs s) streams)"
    by fastforce
  with a show ?case by simp
qed

lemma process_stream_lines:
  assumes "process_stream i stream fs = Inr (out, fs')" "m \<in> set out"
  shows "neutral m \<or> (\<exists>rate. rate_check stream = Inr rate \<and> m \<in> set rate) \<or>
         m \<in> set (fst (specific_check stream fs))"
proof (cases "length (time_series stream) > 0")
  case True
  with assms(1) obtain samples rate where
    p: "print_samples stream = Inr samples" and r: "rate_check stream = Inr rate"
    by (auto simp: process_stream_def Let_def split: sum.splits prod.splits)
  with True assms(1) have out: "out =
      [StreamHeader (i + 1) (info_name stream), TypeLine (info_type stream),
       ChannelsLine (channel_count stream), NominalRateLine (nominal_srate stream),
       TotalSamplesLine (length (time_series stream))] @ samples @ rate @
      fst (specific_check stream fs) @ [Separator]"
    by (auto simp: process_stream_def Let_def split: prod.splits)
  have "neutral v" if "v \<in> set samples" for v
    using print_samples_shape [OF p that] by auto
  with assms(2) r show ?thesis unfolding out by auto
next
  case False
  with assms(1) have out: "out =
      [StreamHeader (i + 1) (info_name stream), TypeLine (info_type stream),
       ChannelsLine (channel_count stream), NominalRateLine (nominal_srate stream),
       TotalSamplesLine (length (time_series stream))] @
      fst (specific_check stream fs) @ [Separator]"
    by (auto simp: process_stream_def Let_def split: prod.splits)
  with assms(2) show ?thesis by auto
qed

lemma process_stream_prints:
  assumes "process_stream i stream fs = Inr (out, fs')"
  shows "set (fst (specific_check stream fs)) \<subseteq> set out \<and>
         (time_series stream \<noteq> [] \<longrightarrow>
            (\<forall>rate. rate_check stream = Inr rate \<longrightarrow> set rate \<subseteq> set out))"
  using assms
  by (auto simp: process_stream_def Let_def split: sum.splits prod.splits if_splits)

lemma process_streams_lines:
  "process_streams i streams fs = Inr (out, fs') \<Longrightarrow> m \<in> set out \<Longrightarrow>
     neutral m \<or>
     (\<exists>s \<in> set streams. (\<exists>rate. rate_check s = Inr rate \<and> m \<in> set rate) \<or>
                         (\<exists>fs. m \<in> set (fst (specific_check s fs))))"
proof (induction streams arbitrary: i fs out)
  case Nil
  then show ?case by simp
next
  case (Cons s streams)
  from Cons.prems(1) obtain o1 f1 o2 where
    a: "process_stream i s fs = Inr (o1, f1)"
    and b: "process_streams (i + 1) streams f1 = Inr (o2, fs')"
    and c: "out = o1 @ o2"
    by (auto split: sum.splits prod.splits)
  from Cons.prems(2) c consider "m \<in> set o1" | "m \<in> set o2" by auto
  then show ?case
  proof cases
    case 1
    from process_stream_lines [OF a 1] show ?thesis by auto
  next
    case 2
    from Cons.IH [OF b 2] show ?thesis by auto
  qed
qed

lemma process_streams_prints:
  "process_streams i streams fs = Inr (out, fs') \<Longrightarrow> s \<in> set streams \<Longrightarrow>
     \<exists>fs0. set (fst (specific_check s fs0)) \<subseteq> set out"
proof (induction streams arbitrary: i fs out)
  case Nil
  then show ?case by simp
next
  case (Cons x streams)
  from Cons.prems(1) obtain o1 f1 o2 where
    a: "process_stream i x fs = Inr (o1, f1)"
    and b: "process_streams (i + 1) streams f1 = Inr (o2, fs')"
    and c: "out = o1 @ o2"
    by (auto split: sum.splits prod.splits)
  show ?case
  proof (cases "s = x")
    case True
    with process_stream_prints [OF a] c show ?thesis by auto
  next
    case False
    with Cons.prems(2) have "s \<in> set streams" by simp
    from Cons.IH [OF b this] c show ?thesis by auto
  qed
qed

lemma process_streams_prints_rate:
  "process_streams i streams fs = Inr (out, fs') \<Longrightarrow> s \<in> set streams \<Longrightarrow>
     time_series s \<noteq> [] \<Longrightarrow> rate_check s = Inr rate \<Longrightarrow> set rate \<subseteq> set out"
proof (induction streams arbitrary: i fs out)
  case Nil
  then show ?case by simp
next
  case (Cons x streams)
  from Cons.prems(1) obtain o1 f1 o2 where
    a: "process_stream i x fs = Inr (o1, f1)"
    and b: "process_streams (i + 1) streams f1 = Inr (o2, fs')"
    and c: "out = o1 @ o2"
    by (auto split: sum.splits prod.splits)
  show ?case
  proof (cases "s = x")
    case True
    with process_stream_prints [OF a] Cons.prems(3,4) c show ?thesis by auto
  next
    case False
    with Cons.prems(2) have "s \<in> set streams" by simp
    from Cons.IH [OF b this Cons.prems(3,4)] c show ?thesis by auto
  qed
qed

subsection \<open>The flags and the summary\<close>

lemma catalog_entries:
  "catalog = [(''EEG_Stream_1Hz'', ''EEG'', 4, 1), (''EEG_Stream_10Hz'', ''EEG'', 8, 10),
              (''EEG_Stream_250Hz'', ''EEG'', 16, 250), (''EEG_Stream_500Hz'', ''EEG'', 32, 500),
              (''Test_Markers'', ''Markers'', 1, 0)]"
  by (simp add: catalog_def expected_eeg_streams_def expected_marker_stream_def)

lemma expected_keys:
  "map fst expected_eeg_streams =
     [''EEG_Stream_1Hz'', ''EEG_Stream_10Hz'', ''EEG_Stream_250Hz'', ''EEG_Stream_500Hz'']"
  by (simp add: expected_eeg_streams_def)

lemma marker_name_not_eeg: "map_of expected_eeg_streams (name expected_marker_stream) = None"
  by (simp add: expected_eeg_streams_def expected_marker_stream_def)

lemma mark_marker:
  "found_marker_stream (mark fs stream) \<longleftrightarrow> found_marker_stream fs \<or> marker_hit stream"
  using marker_name_not_eeg
  by (auto simp: mark_def specific_check_def marker_hit_def Let_def split: option.splits)

lemma mark_eeg:
  "found_eeg_streams (mark fs stream) =
     (if eeg_hit stream (info_name stream)
      then AList.update (info_name stream) True (found_eeg_streams fs)
      else found_eeg_streams fs)"
  by (auto simp: mark_def specific_check_def eeg_hit_def Let_def split: option.splits)

lemma mark_keys:
  assumes "map fst (found_eeg_streams fs) = map fst expected_eeg_streams"
  shows "map fst (found_eeg_streams (mark fs stream)) = map fst expected_eeg_streams"
proof (cases "eeg_hit stream (info_name stream)")
  case True
  then obtain e where "map_of expected_eeg_streams (info_name stream) = Some e"
    by (auto simp: eeg_hit_def)
  then have "info_name stream \<in> set (map fst expected_eeg_streams)"
    by (metis map_of_eq_None_iff option.distinct(1) set_map)
  with True assms show ?thesis by (simp add: mark_eeg update_keys)
next
  case False
  with assms show ?thesis by (simp add: mark_eeg)
qed

lemma mark_lookup:
  "map_of (found_eeg_streams (mark fs stream)) nm = Some True \<longleftrightarrow>
     map_of (found_eeg_streams fs) nm = Some True \<or> eeg_hit stream nm"
  by (auto simp: mark_eeg update_conv' eeg_hit_def)

lemma foldl_mark_marker:
  "found_marker_stream (foldl mark fs streams) \<longleftrightarrow>
     found_marker_stream fs \<or> (\<exists>s \<in> set streams. marker_hit s)"
  by (induction streams arbitrary: fs) (auto simp: mark_marker)

lemma foldl_mark_keys:
  "map fst (found_eeg_streams fs) = map fst expected_eeg_streams \<Longrightarrow>
   map fst (found_eeg_streams (foldl mark fs streams)) = map fst expected_eeg_streams"
  by (induction streams arbitrary: fs) (simp_all add: mark_keys)

lemma foldl_mark_lookup:
  "map_of (found_eeg_streams (foldl mark fs streams)) nm = Some True \<longleftrightarrow>
     map_of (found_eeg_streams fs) nm = Some True \<or> (\<exists>s \<in> set streams. eeg_hit s nm)"
  by (induction streams arbitrary: fs) (auto simp: mark_lookup)

lemma all_found_lookup:
  "distinct (map fst al) \<Longrightarrow>
     list_all snd al \<longleftrightarrow> (\<forall>k \<in> set (map fst al). map_of al k = Some True)"
proof (induction al)
  case Nil
  show ?case by simp
next
  case (Cons p al)
  obtain a b where p: "p = (a, b)" by (cases p)
  from Cons.prems p have a: "a \<notin> set (map fst al)" and d: "distinct (map fst al)"
    by auto
  have "(\<forall>k \<in> set (map fst al). map_of (p # al) k = Some True) \<longleftrightarrow>
        (\<forall>k \<in> set (map fst al). map_of al k = Some True)"
    using a p by auto
  with Cons.IH [OF d] p show ?case by auto
qed

lemma summary_eeg_eq:
  "summary_eeg items (out, ok) =
     (out @ map (\<lambda>(nm, fnd). if fnd then FoundEEG nm else MissingEEG nm) items,
      ok \<and> list_all snd items)"
  by (induction items arbitrary: out ok) auto

lemma summary_verdict:
  "(AllVerified \<in> set (summary fs) \<longleftrightarrow>
      list_all snd (found_eeg_streams fs) \<and> found_marker_stream fs) \<and>
   (SomeMissing \<in> set (summary fs) \<longleftrightarrow>
      \<not> (list_all snd (found_eeg_streams fs) \<and> found_marker_stream fs))"
  by (auto simp: summary_def summary_eeg_eq Let_def split: if_splits)

lemma summary_all_found:
  assumes "list_all snd (found_eeg_streams fs)" "found_marker_stream fs"
    "map fst (found_eeg_streams fs) = map fst expected_eeg_streams"
  shows "summary fs =
     [SummaryHeader, FoundEEG ''EEG_Stream_1Hz'', FoundEEG ''EEG_Stream_10Hz'',
      FoundEEG ''EEG_Stream_250Hz'', FoundEEG ''EEG_Stream_500Hz'',
      FoundMarker ''Test_Markers'', AllVerified]"
proof -
  have "map (\<lambda>(nm, fnd). if fnd then FoundEEG nm else MissingEEG nm) al =
        map FoundEEG (map fst al)" if "list_all snd al" for al :: "(string \<times> bool) list"
    using that by (induction al) auto
  from this [OF assms(1)] assms(3)
  have "map (\<lambda>(nm, fnd). if fnd then FoundEEG nm else MissingEEG nm) (found_eeg_streams fs) =
        map FoundEEG (map fst expected_eeg_streams)"
    by simp
  with assms(1,2) show ?thesis
    by (simp add: summary_def summary_eeg_eq expected_keys expected_marker_stream_def)
qed

lemma initial_found_lookup: "map_of (found_eeg_streams initial_found) nm \<noteq> Some True"
  by (simp add: initial_found_def expected_eeg_streams_def)

lemma initial_found_keys:
  "map fst (found_eeg_streams initial_found) = map fst expected_eeg_streams"
  by (simp add: initial_found_def expected_eeg_streams_def)

lemma eeg_hit_entries:
  "eeg_hit s ''EEG_Stream_1Hz'' \<longleftrightarrow>
     info_name s = ''EEG_Stream_1Hz'' \<and> info_type s = ''EEG'' \<and> channel_count s = 4 \<and>
     nominal_srate s = 1"
  "eeg_hit s ''EEG_Stream_10Hz'' \<longleftrightarrow>
     info_name s = ''EEG_Stream_10Hz'' \<and> info_type s = ''EEG'' \<and> channel_count s = 8 \<and>
     nominal_srate s = 10"
  "eeg_hit s ''EEG_Stream_250Hz'' \<longleftrightarrow>
     info_name s = ''EEG_Stream_250Hz'' \<and> info_type s = ''EEG'' \<and> channel_count s = 16 \<and>
     nominal_srate s = 250"
  "eeg_hit s ''EEG_Stream_500Hz'' \<longleftrightarrow>
     info_name s = ''EEG_Stream_500Hz'' \<and> info_type s = ''EEG'' \<and> channel_count s = 32 \<and>
     nominal_srate s = 500"
  by (simp_all add: eeg_hit_def expected_eeg_streams_def matches_def)

lemma marker_hit_entry:
  "marker_hit s \<longleftrightarrow>
     info_name s = ''Test_Markers'' \<and> info_type s = ''Markers'' \<and> channel_count s = 1 \<and>
     nominal_srate s = 0"
  by (simp add: marker_hit_def expected_marker_stream_def matches_def)

lemma all_matched_iff:
  "list_all (found_and_matched streams) catalog \<longleftrightarrow>
     (\<forall>k \<in> set (map fst expected_eeg_streams). \<exists>s \<in> set streams. eeg_hit s k) \<and>
     (\<exists>s \<in> set streams. marker_hit s)"
  unfolding expected_keys catalog_entries
  by (simp add: found_and_matched_def list_ex_iff eeg_hit_entries marker_hit_entry)

lemma final_flags:
  "list_all snd (found_eeg_streams (foldl mark initial_found streams)) \<and>
     found_marker_stream (foldl mark initial_found streams) \<longleftrightarrow>
   list_all (found_and_matched streams) catalog"
proof -
  let ?fs = "foldl mark initial_found streams"
  have keys: "map fst (found_eeg_streams ?fs) = map fst expected_eeg_streams"
    using initial_found_keys by (rule foldl_mark_keys)
  then have "distinct (map fst (found_eeg_streams ?fs))"
    by (simp add: expected_eeg_streams_def)
  then have "list_all snd (found_eeg_streams ?fs) \<longleftrightarrow>
      (\<forall>k \<in> set (map fst expected_eeg_streams). map_of (found_eeg_streams ?fs) k = Some True)"
    using keys by (simp add: all_found_lookup)
  also have "\<dots> \<longleftrightarrow> (\<forall>k \<in> set (map fst expected_eeg_streams). \<exists>s \<in> set streams. eeg_hit s k)"
    by (simp add: foldl_mark_lookup initial_found_lookup)
  finally have eeg: "list_all snd (found_eeg_streams ?fs) \<longleftrightarrow>
      (\<forall>k \<in> set (map fst expected_eeg_streams). \<exists>s \<in> set streams. eeg_hit s k)" .
  have "found_marker_stream ?fs \<longleftrightarrow> (\<exists>s \<in> set streams. marker_hit s)"
    by (simp add: foldl_mark_marker initial_found_def)
  with eeg show ?thesis by (simp add: all_matched_iff)
qed

lemma verdict_of_output:
  assumes "load_xdf xdf_filepath = Inr streams"
    and v: "verify_xdf_recording load_xdf xdf_filepath = Inr out"
  shows "(AllVerified \<in> set out \<longleftrightarrow> list_all (found_and_matched streams) catalog) \<and>
         (SomeMissing \<in> set out \<longleftrightarrow> \<not> list_all (found_and_matched streams) catalog)"
proof -
  from assms obtain lines fs where
    p: "process_streams 0 streams initial_found = Inr (lines, fs)"
    and out: "out = [VerifyingFile xdf_filepath, LoadedStreams (length streams) xdf_filepath] @
                    lines @ summary fs @ [VerificationComplete]"
    by (auto simp: verify_xdf_recording_def split: sum.splits prod.splits)
  from process_streams_result [OF p] have
    fs: "fs = foldl mark initial_found streams"
    and no: "AllVerified \<notin> set lines" "SomeMissing \<notin> set lines"
    by simp_all
  from no have "AllVerified \<in> set out \<longleftrightarrow> AllVerified \<in> set (summary fs)"
    and "SomeMissing \<in> set out \<longleftrightarrow> SomeMissing \<in> set (summary fs)"
    unfolding out by auto
  then show ?thesis
    using summary_verdict [of fs] final_flags [of streams] unfolding fs by auto
qed

subsection \<open>The verdict\<close>

text \<open>
  C1. Whenever the verifier prints a verdict for a loaded recording, the verdict is
  success exactly when every one of the five catalog entries is found and matched by some
  stream of the recording, and failure exactly when some entry is not. It prints a
  verdict for every recording that has as many timestamps as samples in each stream.
\<close>

theorem verdict_iff_all_matched:
  assumes "load_xdf xdf_filepath = Inr streams"
  shows "(\<forall>out. verify_xdf_recording load_xdf xdf_filepath = Inr out \<longrightarrow>
            (AllVerified \<in> set out \<longleftrightarrow> list_all (found_and_matched streams) catalog) \<and>
            (SomeMissing \<in> set out \<longleftrightarrow> \<not> list_all (found_and_matched streams) catalog)) \<and>
         ((\<forall>s \<in> set streams. well_formed s) \<longrightarrow>
            (\<exists>out. verify_xdf_recording load_xdf xdf_filepath = Inr out))"
proof (intro conjI allI impI)
  fix out
  assume v: "verify_xdf_recording load_xdf xdf_filepath = Inr out"
  from verdict_of_output [OF assms v]
  show "AllVerified \<in> set out \<longleftrightarrow> list_all (found_and_matched streams) catalog"
    and "SomeMissing \<in> set out \<longleftrightarrow> \<not> list_all (found_and_matched streams) catalog"
    by simp_all
next
  assume "\<forall>s \<in> set streams. well_formed s"
  from process_streams_ok [OF this, of 0 initial_found] assms
  show "\<exists>out. verify_xdf_recording load_xdf xdf_filepath = Inr out"
    by (auto simp: verify_xdf_recording_def)
qed

theorem verdict_iff_all_matched_witness:
  "\<exists>out. verify_xdf_recording
       (\<lambda>p. Inr [\<lparr>info_name = ''EEG_Stream_1Hz'', info_type = ''EEG'', channel_count = 4,
                     nominal_srate = 1, time_series = [], time_stamps = []\<rparr>,
                   \<lparr>info_name = ''EEG_Stream_10Hz'', info_type = ''EEG'', channel_count = 8,
                     nominal_srate = 10, time_series = [], time_stamps = []\<rparr>,
                   \<lparr>info_name = ''EEG_Stream_250Hz'', info_type = ''EEG'', channel_count = 16,
                     nominal_srate = 250, time_series = [], time_stamps = []\<rparr>,
                   \<lparr>info_name = ''EEG_Stream_500Hz'', info_type = ''EEG'', channel_count = 32,
                     nominal_srate = 500, time_series = [], time_stamps = []\<rparr>,
                   \<lparr>info_name = ''Test_Markers'', info_type = ''Markers'', channel_count = 1,
                     nominal_srate = 0, time_series = [Labels [''Onset'']],
                     time_stamps = [1]\<rparr>])
       ''my_recorded_streams.xdf'' = Inr out \<and>
     AllVerified \<in> set out \<and> SomeMissing \<notin> set out"
proof -
  let ?rec = "[\<lparr>info_name = ''EEG_Stream_1Hz'', info_type = ''EEG'', channel_count = 4,
                     nominal_srate = 1, time_series = [], time_stamps = []\<rparr>,
                   \<lparr>info_name = ''EEG_Stream_10Hz'', info_type = ''EEG'', channel_count = 8,
                     nominal_srate = 10, time_series = [], time_stamps = []\<rparr>,
                   \<lparr>info_name = ''EEG_Stream_250Hz'', info_type = ''EEG'', channel_count = 16,
                     nominal_srate = 250, time_series = [], time_stamps = []\<rparr>,
                   \<lparr>info_name = ''EEG_Stream_500Hz'', info_type = ''EEG'', channel_count = 32,
                     nominal_srate = 500, time_series = [], time_stamps = []\<rparr>,
                   \<lparr>info_name = ''Test_Markers'', info_type = ''Markers'', channel_count = 1,
                     nominal_srate = 0, time_series = [Labels [''Onset'']],
                     time_stamps = [1::real]\<rparr>]"
  have wf: "\<forall>s \<in> set ?rec. well_formed s" by (simp add: well_formed_def)
  have m: "list_all (found_and_matched ?rec) catalog"
    by (simp add: catalog_entries found_and_matched_def)
  note t = verdict_iff_all_matched
    [of "\<lambda>p. Inr ?rec" "''my_recorded_streams.xdf''" ?rec, OF refl]
  from t wf obtain out where
    o: "verify_xdf_recording (\<lambda>p. Inr ?rec) ''my_recorded_streams.xdf'' = Inr out"
    by blast
  from t o m have "AllVerified \<in> set out \<and> SomeMissing \<notin> set out" by blast
  with o show ?thesis by blast
qed

subsection \<open>The rate warning\<close>



subsection \<open>Double precision\<close>


lemma round_half_even_int: "round_half_even (of_int k) = k"
  by (simp add: round_half_even_def)















section \<open>Properties of the broadcaster\<close>

subsection \<open>The value of a channel\<close>

lemma collect_Inr: "collect (map (\<lambda>x. Inr (f x)) xs) = Inr (map f xs)"
  by (induction xs) simp_all

lemma eeg_value_formula:
  assumes "0 < srate config"
  shows "eeg_value config sample_count r =
     Inr (spec_value (real_of_int (amplitude config)) (srate config) sample_count
            (uniform (- 0.5) 0.5 r))"
  using assms by (simp add: eeg_value_def float_div_def Let_def spec_value_def mult.commute)

lemma eeg_body_formula:
  assumes "0 < srate config"
  shows "eeg_body config rs sample_count =
     Inr ([Push (Numeric (spec_sample config rs sample_count)),
           Sleep (1 / real_of_int (srate config))], sample_count + 1)"
proof -
  have "map (\<lambda>j. eeg_value config sample_count (rs j)) [0 ..< nat (n_channels config)] =
        map (\<lambda>j. Inr (spec_value (real_of_int (amplitude config)) (srate config) sample_count
            (uniform (- 0.5) 0.5 (rs j)))) [0 ..< nat (n_channels config)]"
    using assms by (simp add: eeg_value_formula)
  then have "collect (map (\<lambda>j. eeg_value config sample_count (rs j)) [0 ..< nat (n_channels config)])
     = Inr (spec_sample config rs sample_count)"
    by (simp only: collect_Inr spec_sample_def)
  then show ?thesis using assms
    by (simp add: eeg_body_def float_div_def sleep_def)
qed

lemma uniform_noise_range:
  assumes "0 \<le> r" "r < 1"
  shows "- (1 / 2) \<le> uniform (- 0.5) 0.5 r \<and> uniform (- 0.5) 0.5 r \<le> 1 / 2"
  using assms by (simp add: uniform_def)

lemma sawtooth_range:
  assumes "0 < (s :: int)"
  shows "0 \<le> 0.2 * real_of_int (c mod (2 * s)) / real_of_int s \<and>
         0.2 * real_of_int (c mod (2 * s)) / real_of_int s \<le> 0.4 - 0.2 / real_of_int s"
proof -
  have "0 \<le> c mod (2 * s)" "c mod (2 * s) \<le> 2 * s - 1"
    using assms by simp_all
  then have a: "0 \<le> real_of_int (c mod (2 * s))"
        and b: "real_of_int (c mod (2 * s)) \<le> 2 * real_of_int s - 1"
    by linarith+
  have s: "0 < real_of_int s" using assms by simp
  from a s have "0 \<le> 0.2 * real_of_int (c mod (2 * s)) / real_of_int s" by simp
  moreover have "0.2 * real_of_int (c mod (2 * s)) / real_of_int s \<le> 0.2 * (2 * real_of_int s - 1) / real_of_int s"
    using b s by (simp add: divide_right_mono)
  moreover have "0.2 * (2 * real_of_int s - 1) / real_of_int s = 0.4 - 0.2 / real_of_int s"
    using s by (simp add: field_simps)
  ultimately show ?thesis by simp
qed

lemma spec_value_bound:
  assumes "0 < s" "0 < amp" "- (1 / 2) \<le> u" "u \<le> 1 / 2"
  shows "\<bar>spec_value amp s c u\<bar> \<le> (0.9 - 0.2 / real_of_int s) * amp"
proof -
  define w where "w = 0.2 * real_of_int (c mod (2 * s)) / real_of_int s"
  define q where "q = 0.2 / real_of_int s"
  have w: "0 \<le> w" "w \<le> 0.4 - q"
    using sawtooth_range [OF assms(1), of c] by (auto simp: w_def q_def)
  have q: "q \<le> 0.2" using assms(1) by (simp add: q_def field_simps)
  have "\<bar>u + w\<bar> \<le> 0.9 - q"
    using w q assms(3,4) by (simp add: abs_le_iff)
  then have "\<bar>u + w\<bar> * amp \<le> (0.9 - q) * amp"
    using assms(2) by (simp add: mult_right_mono)
  moreover have "\<bar>spec_value amp s c u\<bar> = \<bar>u + w\<bar> * amp"
    using assms(2) by (simp add: spec_value_def w_def abs_mult mult.commute)
  ultimately show ?thesis by (simp add: q_def)
qed

text \<open>
  C8, as the code has it. With a positive rate and amplitude, an iteration pushes one
  sample of \<open>n_channels\<close> values; channel \<open>j\<close> has the value of the formula for its own
  draw \<open>u\<close>, which lies in \<open>[-0.5, 0.5]\<close>, and a magnitude of at most
  \<open>(0.9 - 0.2 / rate) * amplitude\<close>: that is \<open>0.7 * amplitude\<close> at 1 Hz only.
\<close>

theorem eeg_sample_formula_and_bound:
  assumes "0 < srate config" "0 < amplitude config" "\<forall>j. 0 \<le> rs j \<and> rs j < 1"
  shows "\<exists>sample.
     eeg_body config rs sample_count =
       Inr ([Push (Numeric sample), Sleep (1 / real_of_int (srate config))], sample_count + 1) \<and>
     length sample = nat (n_channels config) \<and>
     (\<forall>j < length sample.
        - (1 / 2) \<le> uniform (- 0.5) 0.5 (rs j) \<and> uniform (- 0.5) 0.5 (rs j) \<le> 1 / 2 \<and>
        sample ! j = spec_value (real_of_int (amplitude config)) (srate config) sample_count
                       (uniform (- 0.5) 0.5 (rs j)) \<and>
        \<bar>sample ! j\<bar> \<le> (0.9 - 0.2 / real_of_int (srate config)) * real_of_int (amplitude config))"
proof -
  let ?sample = "spec_sample config rs sample_count"
  have len: "length ?sample = nat (n_channels config)" by (simp add: spec_sample_def)
  have each: "- (1 / 2) \<le> uniform (- 0.5) 0.5 (rs j) \<and> uniform (- 0.5) 0.5 (rs j) \<le> 1 / 2 \<and>
        ?sample ! j = spec_value (real_of_int (amplitude config)) (srate config) sample_count
                       (uniform (- 0.5) 0.5 (rs j)) \<and>
        \<bar>?sample ! j\<bar> \<le> (0.9 - 0.2 / real_of_int (srate config)) * real_of_int (amplitude config)"
    if "j < length ?sample" for j
  proof -
    have u: "- (1 / 2) \<le> uniform (- 0.5) 0.5 (rs j)" "uniform (- 0.5) 0.5 (rs j) \<le> 1 / 2"
      using uniform_noise_range [of "rs j"] assms(3) by auto
    have v: "?sample ! j = spec_value (real_of_int (amplitude config)) (srate config) sample_count
                       (uniform (- 0.5) 0.5 (rs j))"
      using that by (simp add: spec_sample_def)
    have "0 < real_of_int (amplitude config)" using assms(2) by simp
    from spec_value_bound [OF assms(1) this u] v u show ?thesis by simp
  qed
  show ?thesis
    using eeg_body_formula [OF assms(1)] len each by blast
qed

theorem eeg_sample_formula_and_bound_witness:
  "\<exists>sample.
     eeg_body (eeg_stream_configs ! 0) (\<lambda>j. 1 / 2) 1 =
       Inr ([Push (Numeric sample), Sleep 1], 2) \<and>
     length sample = 4 \<and> sample ! 0 = 10 \<and> \<bar>sample ! 0\<bar> \<le> 35"
proof -
  let ?config = "eeg_stream_configs ! 0"
  have "0 < srate ?config" "0 < amplitude ?config"
    "\<forall>j::nat. (0::real) \<le> 1 / 2 \<and> (1 / 2 :: real) < 1"
    by (simp_all add: eeg_stream_configs_def)
  from eeg_sample_formula_and_bound [OF this, of 1] obtain sample where
    body: "eeg_body ?config (\<lambda>j. 1 / 2) 1 =
             Inr ([Push (Numeric sample), Sleep (1 / real_of_int (srate ?config))], 1 + 1)"
    and len: "length sample = nat (n_channels ?config)"
    and each: "\<forall>j < length sample.
        - (1 / 2) \<le> uniform (- 0.5) 0.5 (1 / 2) \<and> uniform (- 0.5) 0.5 (1 / 2) \<le> 1 / 2 \<and>
        sample ! j = spec_value (real_of_int (amplitude ?config)) (srate ?config) 1
                       (uniform (- 0.5) 0.5 (1 / 2)) \<and>
        \<bar>sample ! j\<bar> \<le> (0.9 - 0.2 / real_of_int (srate ?config)) *
                          real_of_int (amplitude ?config)"
    by blast
  from len have len4: "length sample = 4" by (simp add: eeg_stream_configs_def)
  then have "0 < length sample" by simp
  with each have "sample ! 0 = spec_value (real_of_int (amplitude ?config)) (srate ?config) 1
                       (uniform (- 0.5) 0.5 (1 / 2)) \<and>
        \<bar>sample ! 0\<bar> \<le> (0.9 - 0.2 / real_of_int (srate ?config)) *
                          real_of_int (amplitude ?config)"
    by blast
  then have "sample ! 0 = 10 \<and> \<bar>sample ! 0\<bar> \<le> 35"
    by (simp add: eeg_stream_configs_def spec_value_def uniform_def)
  with body len4 show ?thesis by (simp add: eeg_stream_configs_def)
qed

text \<open>
  C8, as the spec has it, fails: the 500 Hz stream at sample 999 with the draw 0.99 has
  the value \<open>355.84\<close>, above \<open>0.7 * 400 = 280\<close>.
\<close>

theorem eeg_magnitude_counterexample:
  "eeg_value (eeg_stream_configs ! 3) 999 (99 / 100) = Inr (8896 / 25) \<and>
   0.7 * real_of_int (amplitude (eeg_stream_configs ! 3)) < 8896 / 25"
  by (simp add: eeg_value_def eeg_stream_configs_def uniform_def float_div_def)

subsection \<open>The loop of the continuous generator\<close>

lemma concat_map_upt_Suc:
  "concat (map f [0 ..< Suc n]) = f 0 @ concat (map (\<lambda>i. f (Suc i)) [0 ..< n])"
proof -
  have "[0 ..< Suc n] = 0 # map Suc [0 ..< n]"
    by (simp add: upt_conv_Cons map_Suc_upt del: upt_Suc)
  then show ?thesis by (simp add: comp_def del: upt_Suc)
qed

lemma eeg_loop_run:
  assumes "0 < srate config"
  shows "is_set (k + n) \<Longrightarrow> \<forall>i<n. \<not> is_set (k + i) \<Longrightarrow>
     eeg_loop config is_set rnd k sample_count out =
       Some (Inr (out @ concat (map (\<lambda>i. [Push (Numeric (spec_sample config (rnd (k + i))
                                                   (sample_count + int i))),
                                            Sleep (1 / real_of_int (srate config))])
                                  [0 ..< n]),
                  sample_count + int n))"
proof (induction n arbitrary: k sample_count out)
  case 0
  then show ?case by (subst eeg_loop.simps) simp
next
  case (Suc n)
  from Suc.prems have now: "\<not> is_set k" by force
  have later: "is_set (k + 1 + n)" "\<forall>i<n. \<not> is_set (k + 1 + i)"
    using Suc.prems by auto
  have "eeg_loop config is_set rnd k sample_count out =
        eeg_loop config is_set rnd (k + 1) (sample_count + 1)
          (out @ [Push (Numeric (spec_sample config (rnd k) sample_count)),
                  Sleep (1 / real_of_int (srate config))])"
    using now by (subst eeg_loop.simps) (simp add: eeg_body_formula [OF assms])
  also have "\<dots> = Some (Inr ((out @ [Push (Numeric (spec_sample config (rnd k) sample_count)),
                  Sleep (1 / real_of_int (srate config))]) @
        concat (map (\<lambda>i. [Push (Numeric (spec_sample config (rnd (k + 1 + i))
                                                   (sample_count + 1 + int i))),
                                            Sleep (1 / real_of_int (srate config))])
                                  [0 ..< n]),
                  sample_count + 1 + int n))"
    by (rule Suc.IH [OF later])
  finally show ?case
    by (simp add: concat_map_upt_Suc add.assoc del: upt_Suc)
qed

text \<open>
  C6. Let the stop signal be first seen set at check \<open>n\<close> (counting from 0), and the
  rate be positive. Then the generator returns, and between creating the outlet and
  saying that it stopped it does exactly this: for each \<open>k < n\<close> in turn, one push of
  the sample computed with the counter at \<open>k\<close>, then one suspension of \<open>1 / rate\<close>
  seconds. The counter ends at \<open>n\<close>, and nothing is pushed after the signal is seen.
\<close>

theorem eeg_loop_contract:
  assumes "0 < srate config" "is_set n" "\<forall>k<n. \<not> is_set k"
  shows "create_eeg_stream config is_set rnd =
     Some (Inr ([CreateOutlet (name config) (type config) (n_channels config) (srate config)
                   ''float32'' (uid (name config)),
                 Created (name config)] @
                concat (map (\<lambda>k. [Push (Numeric (spec_sample config (rnd k) (int k))),
                                    Sleep (1 / real_of_int (srate config))])
                          [0 ..< n]) @
                [Stopped (name config)])) \<and>
     (\<forall>out. eeg_loop config is_set rnd 0 0 out =
        Some (Inr (out @
                   concat (map (\<lambda>k. [Push (Numeric (spec_sample config (rnd k) (int k))),
                                       Sleep (1 / real_of_int (srate config))])
                             [0 ..< n]),
                   int n)))"
proof -
  have run: "eeg_loop config is_set rnd 0 0 out =
        Some (Inr (out @
                   concat (map (\<lambda>k. [Push (Numeric (spec_sample config (rnd k) (int k))),
                                       Sleep (1 / real_of_int (srate config))])
                             [0 ..< n]),
                   int n))" for out
    using eeg_loop_run [OF assms(1), of is_set 0 n rnd 0 out] assms(2,3) by simp
  then show ?thesis by (simp add: create_eeg_stream_def)
qed

theorem eeg_loop_contract_witness:
  "create_eeg_stream (eeg_stream_configs ! 0) (\<lambda>k. 2 \<le> k) (\<lambda>k j. 1 / 2) =
     Some (Inr [CreateOutlet ''EEG_Stream_1Hz'' ''EEG'' 4 1 ''float32'' ''eeg_stream_1hz_uid'',
                Created ''EEG_Stream_1Hz'',
                Push (Numeric [0, 0, 0, 0]), Sleep 1,
                Push (Numeric [10, 10, 10, 10]), Sleep 1,
                Stopped ''EEG_Stream_1Hz''])"
proof -
  have u: "uid ''EEG_Stream_1Hz'' = ''eeg_stream_1hz_uid''" by code_simp
  show ?thesis
    using eeg_loop_contract [of "eeg_stream_configs ! 0" "\<lambda>k. 2 \<le> k" 2 "\<lambda>k j. 1 / 2"]
    by (simp add: eeg_stream_configs_def spec_sample_def spec_value_def uniform_def u
        upt_conv_Cons)
qed

subsection \<open>The loop of the marker generator\<close>

lemma marker_body_events:
  assumes "0 \<le> r"
  shows "marker_body marker_stream_config pick r =
           Inr (marker_events marker_stream_config pick r)"
  using assms
  by (simp add: marker_body_def marker_events_def marker_stream_config_def choice_def
      index_def sleep_def uniform_def Let_def)

lemma marker_loop_run:
  assumes "\<forall>k. 0 \<le> rnd k"
  shows "is_set (k + n) \<Longrightarrow> \<forall>i<n. \<not> is_set (k + i) \<Longrightarrow>
     marker_loop marker_stream_config is_set picks rnd k out =
       Some (Inr (out @ concat (map (\<lambda>i. marker_events marker_stream_config
                                            (picks (k + i)) (rnd (k + i)))
                                  [0 ..< n])))"
proof (induction n arbitrary: k out)
  case 0
  then show ?case by (subst marker_loop.simps) simp
next
  case (Suc n)
  from Suc.prems have now: "\<not> is_set k" by force
  have later: "is_set (k + 1 + n)" "\<forall>i<n. \<not> is_set (k + 1 + i)"
    using Suc.prems by auto
  have "marker_loop marker_stream_config is_set picks rnd k out =
        marker_loop marker_stream_config is_set picks rnd (k + 1)
          (out @ marker_events marker_stream_config (picks k) (rnd k))"
    using now assms by (subst marker_loop.simps) (simp add: marker_body_events)
  also have "\<dots> = Some (Inr ((out @ marker_events marker_stream_config (picks k) (rnd k)) @
        concat (map (\<lambda>i. marker_events marker_stream_config
                                            (picks (k + 1 + i)) (rnd (k + 1 + i)))
                                  [0 ..< n])))"
    by (rule Suc.IH [OF later])
  finally show ?case
    by (simp add: concat_map_upt_Suc del: upt_Suc)
qed

lemma marker_sleep_range:
  assumes "0 \<le> r" "r < 1" "Sleep d \<in> set (marker_events marker_stream_config pick r)"
  shows "500 \<le> d * 1000 \<and> d * 1000 \<le> 2000"
  using assms by (auto simp: marker_events_def marker_stream_config_def uniform_def)

lemma gaps_from_marker_events:
  "gaps_from since (marker_events config pick r @ es) =
     (case since of None \<Rightarrow> [] | Some g \<Rightarrow> [g]) @
     gaps_from (Some (uniform (real_of_int (marker_interval_ms config ! 0))
                     (real_of_int (marker_interval_ms config ! 1)) r / 1000)) es"
  by (simp add: marker_events_def)

lemma gaps_from_marker_run:
  assumes "\<forall>k. 0 \<le> rnd k \<and> rnd k < 1"
  shows "(\<forall>g. since = Some g \<longrightarrow> 500 \<le> g * 1000 \<and> g * 1000 \<le> 2000) \<Longrightarrow>
    (\<forall>g \<in> set (gaps_from since
        (concat (map (\<lambda>i. marker_events marker_stream_config (f i) (rnd (h i))) ks) @ [Stopped nm])).
       500 \<le> g * 1000 \<and> g * 1000 \<le> 2000) \<and>
    length (gaps_from since
        (concat (map (\<lambda>i. marker_events marker_stream_config (f i) (rnd (h i))) ks) @ [Stopped nm])) =
      (if since = None then length ks - 1 else length ks)"
proof (induction ks arbitrary: since)
  case Nil
  then show ?case by simp
next
  case (Cons k ks)
  let ?d = "uniform (real_of_int (marker_interval_ms marker_stream_config ! 0))
                     (real_of_int (marker_interval_ms marker_stream_config ! 1)) (rnd (h k)) / 1000"
  have d: "500 \<le> ?d * 1000 \<and> ?d * 1000 \<le> 2000"
    using assms [rule_format, of "h k"] by (simp add: marker_stream_config_def uniform_def)
  then have "\<forall>g. Some ?d = Some g \<longrightarrow> 500 \<le> g * 1000 \<and> g * 1000 \<le> 2000" by simp
  from Cons.IH [OF this] Cons.prems show ?case
    by (auto simp: gaps_from_marker_events split: option.splits)
qed

text \<open>
  C7. Let every draw lie in \<open>[0, 1)\<close> and the stop signal be first seen set at check
  \<open>n\<close>. Then the marker generator returns after \<open>n\<close> pushes; every suspension it asked
  for lies between 500 and 2000 milliseconds, and so does every gap between two
  consecutive pushes, when time passes in the suspensions only.
\<close>

theorem marker_gaps_within_bounds:
  assumes "\<forall>k. 0 \<le> rnd k \<and> rnd k < 1" "is_set n" "\<forall>k<n. \<not> is_set k"
  shows "\<exists>out. create_marker_stream marker_stream_config is_set picks rnd = Some (Inr out) \<and>
     length (pushes out) = n \<and>
     (\<forall>d. Sleep d \<in> set out \<longrightarrow> 500 \<le> d * 1000 \<and> d * 1000 \<le> 2000) \<and>
     length (gaps out) = n - 1 \<and>
     (\<forall>g \<in> set (gaps out). 500 \<le> g * 1000 \<and> g * 1000 \<le> 2000)"
proof -
  let ?pre = "[CreateOutlet (name marker_stream_config) (type marker_stream_config)
                 (n_channels marker_stream_config) (srate marker_stream_config)
                 ''string'' (uid (name marker_stream_config)),
               Created (name marker_stream_config)]"
  let ?run = "concat (map (\<lambda>i. marker_events marker_stream_config (picks i) (rnd i)) [0 ..< n])"
  let ?out = "?pre @ ?run @ [Stopped (name marker_stream_config)]"
  have nonneg: "\<forall>k. 0 \<le> rnd k" using assms(1) by simp
  have "marker_loop marker_stream_config is_set picks rnd 0 ?pre = Some (Inr (?pre @ ?run))"
    using marker_loop_run [OF nonneg, of is_set 0 n picks ?pre] assms(2,3) by simp
  then have out: "create_marker_stream marker_stream_config is_set picks rnd = Some (Inr ?out)"
    by (simp add: create_marker_stream_def)
  have pushes: "length (pushes ?out) = n"
  proof -
    have "pushes (concat (map (\<lambda>i. marker_events marker_stream_config (picks i) (rnd i)) ks)
                    @ es) =
          map (\<lambda>i. Labels [marker_types marker_stream_config !
                              (picks i mod length (marker_types marker_stream_config))]) ks
          @ pushes es"
      for ks es by (induction ks) (simp_all add: marker_events_def)
    from this [of "[0 ..< n]" "[Stopped (name marker_stream_config)]"] show ?thesis by simp
  qed
  have sleeps: "\<forall>d. Sleep d \<in> set ?out \<longrightarrow> 500 \<le> d * 1000 \<and> d * 1000 \<le> 2000"
    using marker_sleep_range assms(1) by auto
  have "gaps ?out = gaps_from None (?run @ [Stopped (name marker_stream_config)])"
    by (simp add: gaps_def)
  with gaps_from_marker_run [OF assms(1), of None picks "\<lambda>i. i" "[0 ..< n]" "name marker_stream_config"]
  have g: "length (gaps ?out) = n - 1"
      "\<forall>g \<in> set (gaps ?out). 500 \<le> g * 1000 \<and> g * 1000 \<le> 2000"
    by simp_all
  from out pushes sleeps g show ?thesis by blast
qed

theorem marker_gaps_within_bounds_witness:
  "\<exists>out. create_marker_stream marker_stream_config (\<lambda>k. 3 \<le> k) (\<lambda>k. k) (\<lambda>k. 1 / 2) =
            Some (Inr out) \<and>
     length (pushes out) = 3 \<and> length (gaps out) = 2 \<and>
     500 \<le> gaps out ! 0 * 1000 \<and> gaps out ! 0 * 1000 \<le> 2000 \<and>
     500 \<le> gaps out ! 1 * 1000 \<and> gaps out ! 1 * 1000 \<le> 2000"
proof -
  have "\<forall>k::nat. (0::real) \<le> 1 / 2 \<and> (1 / 2 :: real) < 1" "(3::nat) \<le> 3"
    "\<forall>k<3. \<not> (3::nat) \<le> k"
    by simp_all
  from marker_gaps_within_bounds [OF this, of "\<lambda>k. k"] obtain out where
    out: "create_marker_stream marker_stream_config (\<lambda>k. 3 \<le> k) (\<lambda>k. k) (\<lambda>k. 1 / 2) =
            Some (Inr out)"
    and count: "length (pushes out) = 3" "length (gaps out) = 3 - 1"
    and bounds: "\<forall>g \<in> set (gaps out). 500 \<le> g * 1000 \<and> g * 1000 \<le> 2000"
    by blast
  from count(2) have "gaps out ! 0 \<in> set (gaps out)" "gaps out ! 1 \<in> set (gaps out)"
    by simp_all
  with bounds count out show ?thesis by auto
qed

section \<open>The broadcaster and the verifier together\<close>

text \<open>
  C10. The four continuous configurations of the broadcaster carry the names, types,
  channel counts and nominal rates of the verifier's table, in the same order, and the
  marker configuration carries those of the verifier's marker entry.
\<close>

theorem configs_agree:
  "map (\<lambda>c. (name c, type c, n_channels c, srate c)) eeg_stream_configs =
     map (\<lambda>(nm, e). (nm, type e, n_channels e, srate e)) expected_eeg_streams \<and>
   (name marker_stream_config, type marker_stream_config,
    n_channels marker_stream_config, srate marker_stream_config) =
   (name expected_marker_stream, type expected_marker_stream,
    n_channels expected_marker_stream, srate expected_marker_stream)"
  by (simp add: eeg_stream_configs_def expected_eeg_streams_def
      marker_stream_config_def expected_marker_stream_def)

subsection \<open>The round trip\<close>

lemma recorded_eeg_rate:
  assumes "0 < srate config" "2 \<le> length rows"
  shows "rate_check (recorded_eeg config t0 rows) =
           Inr [ActualRateLine (real_of_int (srate config))]"
proof -
  let ?s = "recorded_eeg config t0 rows"
  let ?r = "real_of_int (srate config)"
  have r: "0 < ?r" using assms(1) by simp
  have n: "0 < length rows" "length rows - 1 < length rows" using assms(2) by auto
  have len: "length (time_stamps ?s) = length rows" by (simp add: recorded_eeg_def)
  have h: "hd (time_stamps ?s) = t0"
    using n by (simp add: recorded_eeg_def hd_map)
  have l: "last (time_stamps ?s) = t0 + real (length rows - 1) / ?r"
    using n by (simp add: recorded_eeg_def last_map)
  have pos: "0 < real (length rows - 1)" using assms(2) by simp
  have lt: "hd (time_stamps ?s) < last (time_stamps ?s)"
    unfolding h l using r pos by simp
  have act: "real (length (time_stamps ?s) - 1) /
                 (last (time_stamps ?s) - hd (time_stamps ?s)) = ?r"
    unfolding h l len using r pos by simp
  have sr: "nominal_srate ?s = ?r" by (simp add: recorded_eeg_def)
  have "0 < nominal_srate ?s" "2 \<le> length (time_stamps ?s)"
    using r assms(2) by (simp_all add: sr len)
  from rate_check_regular [OF this lt] show ?thesis
    unfolding act sr by simp
qed

lemma recorded_marker_rate:
  "\<exists>rate. rate_check (recorded_marker marker_stream_config marks) = Inr rate \<and>
          (\<forall>nm. RateWarning nm \<notin> set rate)"
  by (simp add: rate_check_def recorded_marker_def marker_stream_config_def Let_def)

lemma specific_check_verified:
  assumes "map_of expected_eeg_streams (info_name stream) = Some e" "matches stream e"
  shows "fst (specific_check stream fs) = [VerifiedEEG (info_name stream)]"
  using assms by (simp add: specific_check_def Let_def)

lemma recorded_eeg_check:
  assumes "i < length eeg_stream_configs"
  shows "fst (specific_check (recorded_eeg (eeg_stream_configs ! i) t0 rows) fs) =
           [VerifiedEEG (name (eeg_stream_configs ! i))]"
proof -
  let ?s = "recorded_eeg (eeg_stream_configs ! i) t0 rows"
  let ?e = "\<lparr>type = type (eeg_stream_configs ! i),
             n_channels = n_channels (eeg_stream_configs ! i),
             srate = srate (eeg_stream_configs ! i)\<rparr>"
  from assms have "i = 0 \<or> i = 1 \<or> i = 2 \<or> i = 3"
    by (auto simp: eeg_stream_configs_def)
  then have "map_of expected_eeg_streams (name (eeg_stream_configs ! i)) = Some ?e"
    by (elim disjE) (simp_all add: eeg_stream_configs_def expected_eeg_streams_def)
  then have "map_of expected_eeg_streams (info_name ?s) = Some ?e"
    by (simp add: recorded_eeg_def)
  moreover have "matches ?s ?e" by (simp add: matches_def recorded_eeg_def)
  ultimately have "fst (specific_check ?s fs) = [VerifiedEEG (info_name ?s)]"
    by (rule specific_check_verified)
  then show ?thesis by (simp add: recorded_eeg_def)
qed

lemma recorded_marker_check:
  "fst (specific_check (recorded_marker marker_stream_config marks) fs) = [VerifiedMarker]"
  by (simp add: specific_check_def recorded_marker_def marker_stream_config_def
      expected_eeg_streams_def expected_marker_stream_def matches_def Let_def)

lemma synthetic_all_matched:
  "list_all (found_and_matched (synthetic_recording t0 rows marks)) catalog"
  by (simp add: catalog_entries found_and_matched_def synthetic_recording_def
      eeg_stream_configs_def marker_stream_config_def recorded_eeg_def recorded_marker_def
      upt_conv_Cons)

lemma synthetic_well_formed:
  "\<forall>s \<in> set (synthetic_recording t0 rows marks). well_formed s"
  by (auto simp: synthetic_recording_def well_formed_def recorded_eeg_def recorded_marker_def)

lemma synthetic_members:
  "s \<in> set (synthetic_recording t0 rows marks) \<longleftrightarrow>
     (\<exists>i < length eeg_stream_configs.
        s = recorded_eeg (eeg_stream_configs ! i) (t0 i) (rows i)) \<or>
     s = recorded_marker marker_stream_config marks"
  by (auto simp: synthetic_recording_def)

lemma eeg_configs_positive: "i < length eeg_stream_configs \<Longrightarrow> 0 < srate (eeg_stream_configs ! i)"
proof -
  assume "i < length eeg_stream_configs"
  then have "i = 0 \<or> i = 1 \<or> i = 2 \<or> i = 3" by (auto simp: eeg_stream_configs_def)
  then show ?thesis by (elim disjE) (simp_all add: eeg_stream_configs_def)
qed

text \<open>
  C2. For a recording built from the five configurations of the broadcaster, with at
  least two samples in every continuous stream, the verifier returns; its summary reports
  each of the five entries as found and verified and the verdict is success. Every
  stream gets its verified line, the actual rate printed for a continuous stream is its
  nominal rate, and there is neither a mismatch nor a rate warning.
\<close>

theorem round_trip:
  assumes "load_xdf xdf_filepath = Inr (synthetic_recording t0 rows marks)"
    and "\<forall>i < length eeg_stream_configs. 2 \<le> length (rows i)"
  shows "\<exists>lines.
     verify_xdf_recording load_xdf xdf_filepath =
       Inr ([VerifyingFile xdf_filepath, LoadedStreams 5 xdf_filepath] @ lines @
            [SummaryHeader, FoundEEG ''EEG_Stream_1Hz'', FoundEEG ''EEG_Stream_10Hz'',
             FoundEEG ''EEG_Stream_250Hz'', FoundEEG ''EEG_Stream_500Hz'',
             FoundMarker ''Test_Markers'', AllVerified, VerificationComplete]) \<and>
     (\<forall>i < length eeg_stream_configs.
        VerifiedEEG (name (eeg_stream_configs ! i)) \<in> set lines \<and>
        ActualRateLine (real_of_int (srate (eeg_stream_configs ! i))) \<in> set lines) \<and>
     VerifiedMarker \<in> set lines \<and>
     (\<forall>nm. Mismatch nm \<notin> set lines \<and> RateWarning nm \<notin> set lines)"
proof -
  let ?streams = "synthetic_recording t0 rows marks"
  let ?fs = "foldl mark initial_found ?streams"
  from process_streams_ok [of ?streams 0 initial_found] synthetic_well_formed [of t0 rows marks]
  obtain lines where p: "process_streams 0 ?streams initial_found = Inr (lines, ?fs)"
    by blast
  have flags: "list_all snd (found_eeg_streams ?fs)" "found_marker_stream ?fs"
    using final_flags [of ?streams] synthetic_all_matched [of t0 rows marks] by auto
  have keys: "map fst (found_eeg_streams ?fs) = map fst expected_eeg_streams"
    using initial_found_keys by (rule foldl_mark_keys)
  have len: "length ?streams = 5"
    by (simp add: synthetic_recording_def eeg_stream_configs_def)
  have out: "verify_xdf_recording load_xdf xdf_filepath =
       Inr ([VerifyingFile xdf_filepath, LoadedStreams 5 xdf_filepath] @ lines @
            [SummaryHeader, FoundEEG ''EEG_Stream_1Hz'', FoundEEG ''EEG_Stream_10Hz'',
             FoundEEG ''EEG_Stream_250Hz'', FoundEEG ''EEG_Stream_500Hz'',
             FoundMarker ''Test_Markers'', AllVerified, VerificationComplete])"
    using assms(1) p len summary_all_found [OF flags keys]
    by (simp add: verify_xdf_recording_def)
  have eeg: "VerifiedEEG (name (eeg_stream_configs ! i)) \<in> set lines \<and>
             ActualRateLine (real_of_int (srate (eeg_stream_configs ! i))) \<in> set lines"
    if i: "i < length eeg_stream_configs" for i
  proof -
    let ?s = "recorded_eeg (eeg_stream_configs ! i) (t0 i) (rows i)"
    have mem: "?s \<in> set ?streams" using i synthetic_members by blast
    have two: "2 \<le> length (rows i)" using assms(2) i by simp
    then have ne: "time_series ?s \<noteq> []" by (auto simp: recorded_eeg_def)
    from process_streams_prints [OF p mem] recorded_eeg_check [OF i]
    have v: "VerifiedEEG (name (eeg_stream_configs ! i)) \<in> set lines" by auto
    from process_streams_prints_rate [OF p mem ne
        recorded_eeg_rate [OF eeg_configs_positive [OF i] two]]
    have "ActualRateLine (real_of_int (srate (eeg_stream_configs ! i))) \<in> set lines" by simp
    with v show ?thesis by simp
  qed
  have marker: "VerifiedMarker \<in> set lines"
  proof -
    have "recorded_marker marker_stream_config marks \<in> set ?streams"
      using synthetic_members by blast
    from process_streams_prints [OF p this] recorded_marker_check show ?thesis by auto
  qed
  have none: "Mismatch nm \<notin> set lines \<and> RateWarning nm \<notin> set lines" for nm
  proof -
    have "m \<noteq> Mismatch nm \<and> m \<noteq> RateWarning nm" if m: "m \<in> set lines" for m
    proof -
      from process_streams_lines [OF p m] consider
        (n) "neutral m"
        | (r) s rate where "s \<in> set ?streams" "rate_check s = Inr rate" "m \<in> set rate"
        | (c) s fs where "s \<in> set ?streams" "m \<in> set (fst (specific_check s fs))"
        by blast
      then show ?thesis
      proof cases
        case n
        then show ?thesis by auto
      next
        case r
        from r(1) consider
          (e) i where "i < length eeg_stream_configs"
            "s = recorded_eeg (eeg_stream_configs ! i) (t0 i) (rows i)"
          | (k) "s = recorded_marker marker_stream_config marks"
          using synthetic_members by blast
        then show ?thesis
        proof cases
          case e
          with assms(2) have "2 \<le> length (rows i)" by simp
          from recorded_eeg_rate [OF eeg_configs_positive [OF e(1)] this, of "t0 i"] r(2,3) e(2)
          show ?thesis by auto
        next
          case k
          with recorded_marker_rate [of marks] r(2,3) rate_check_shape [OF r(2,3)]
          show ?thesis by auto
        qed
      next
        case c
        from c(1) consider
          (e) i where "i < length eeg_stream_configs"
            "s = recorded_eeg (eeg_stream_configs ! i) (t0 i) (rows i)"
          | (k) "s = recorded_marker marker_stream_config marks"
          using synthetic_members by blast
        then show ?thesis
        proof cases
          case e
          with recorded_eeg_check [OF e(1), of "t0 i" "rows i" fs] c(2) show ?thesis by auto
        next
          case k
          with recorded_marker_check [of marks fs] c(2) show ?thesis by auto
        qed
      qed
    qed
    then show ?thesis by blast
  qed
  from out eeg marker none show ?thesis by blast
qed

theorem round_trip_witness:
  "\<exists>lines.
     verify_xdf_recording
       (\<lambda>p. Inr (synthetic_recording (\<lambda>i. 0) (\<lambda>i. [Numeric [], Numeric []])
                    [(0, ''Onset''), (1, ''Error'')]))
       ''my_recorded_streams.xdf'' =
       Inr ([VerifyingFile ''my_recorded_streams.xdf'',
             LoadedStreams 5 ''my_recorded_streams.xdf''] @ lines @
            [SummaryHeader, FoundEEG ''EEG_Stream_1Hz'', FoundEEG ''EEG_Stream_10Hz'',
             FoundEEG ''EEG_Stream_250Hz'', FoundEEG ''EEG_Stream_500Hz'',
             FoundMarker ''Test_Markers'', AllVerified, VerificationComplete]) \<and>
     VerifiedEEG ''EEG_Stream_10Hz'' \<in> set lines \<and> ActualRateLine 10 \<in> set lines \<and>
     VerifiedMarker \<in> set lines \<and> RateWarning ''EEG_Stream_10Hz'' \<notin> set lines"
proof -
  have "\<forall>i < length eeg_stream_configs. 2 \<le> length [Numeric [], Numeric []]" by simp
  from round_trip [of "\<lambda>p. Inr (synthetic_recording (\<lambda>i. 0) (\<lambda>i. [Numeric [], Numeric []])
                    [(0, ''Onset''), (1, ''Error'')])" "''my_recorded_streams.xdf''"
        "\<lambda>i. 0" "\<lambda>i. [Numeric [], Numeric []]" "[(0, ''Onset''), (1, ''Error'')]", OF refl this]
  obtain lines where
    v: "verify_xdf_recording
       (\<lambda>p. Inr (synthetic_recording (\<lambda>i. 0) (\<lambda>i. [Numeric [], Numeric []])
                    [(0, ''Onset''), (1, ''Error'')]))
       ''my_recorded_streams.xdf'' =
       Inr ([VerifyingFile ''my_recorded_streams.xdf'',
             LoadedStreams 5 ''my_recorded_streams.xdf''] @ lines @
            [SummaryHeader, FoundEEG ''EEG_Stream_1Hz'', FoundEEG ''EEG_Stream_10Hz'',
             FoundEEG ''EEG_Stream_250Hz'', FoundEEG ''EEG_Stream_500Hz'',
             FoundMarker ''Test_Markers'', AllVerified, VerificationComplete])"
    and e: "\<forall>i < length eeg_stream_configs.
        VerifiedEEG (name (eeg_stream_configs ! i)) \<in> set lines \<and>
        ActualRateLine (real_of_int (srate (eeg_stream_configs ! i))) \<in> set lines"
    and k: "VerifiedMarker \<in> set lines"
    and n: "\<forall>nm. Mismatch nm \<notin> set lines \<and> RateWarning nm \<notin> set lines"
    by blast
  have "(1::nat) < length eeg_stream_configs" by (simp add: eeg_stream_configs_def)
  with e have "VerifiedEEG (name (eeg_stream_configs ! 1)) \<in> set lines \<and>
        ActualRateLine (real_of_int (srate (eeg_stream_configs ! 1))) \<in> set lines"
    by blast
  then have "VerifiedEEG ''EEG_Stream_10Hz'' \<in> set lines \<and> ActualRateLine 10 \<in> set lines"
    by (simp add: eeg_stream_configs_def)
  with v k n show ?thesis by blast
qed

end
